theory Spec2Isabelle
  imports
    Main
    "HOL-Library.Word"
    "HOL-Library.AList"
    "HOL-Library.Char_ord"
    "HOL-Library.List_Lexorder"
begin

unbundle bit_operations_syntax

section \<open>The relplanner document server (server.go)\<close>

text \<open>
  A shallow embedding of the versioned-document store of \<^verbatim>\<open>server.go\<close>: the
  document handlers with their optimistic-concurrency check, the backup writer, the
  checksum sidecar, the rotation of old backups, the shape validation and the backup
  deletion endpoint.

  Go strings and byte slices are byte sequences, here \<^typ>\<open>string\<close> (a list of 8-bit
  characters). A byte slice that may be \<^verbatim>\<open>nil\<close> is a \<^typ>\<open>string option\<close>.
  Handlers are functions from the request and the file system to the response and the new
  file system. Log output is not part of the model. Requests are handled one at a time.
\<close>

subsection \<open>Package strings\<close>

definition dquote :: char where
  "dquote = CHR 0x22"

definition newline :: char where
  "newline = CHR 0x0A"

definition HasPrefix :: "string \<Rightarrow> string \<Rightarrow> bool" where
  "HasPrefix s pre = (take (length pre) s = pre)"

definition HasSuffix :: "string \<Rightarrow> string \<Rightarrow> bool" where
  "HasSuffix s suf = (length suf \<le> length s \<and> drop (length s - length suf) s = suf)"

definition TrimSuffix :: "string \<Rightarrow> string \<Rightarrow> string" where
  "TrimSuffix s suf = (if HasSuffix s suf then take (length s - length suf) s else s)"

text \<open>\<^verbatim>\<open>strings.Split(s, sep)\<close> for a one-byte separator: always at least one piece.\<close>

fun Split :: "string \<Rightarrow> char \<Rightarrow> string list" where
  "Split [] c = [[]]"
| "Split (x # xs) c =
     (if x = c then [] # Split xs c
      else (case Split xs c of [] \<Rightarrow> [[x]] | w # ws \<Rightarrow> (x # w) # ws))"

text \<open>\<^verbatim>\<open>strings.Join(elems, "/")\<close>.\<close>

fun joinSlash :: "string list \<Rightarrow> string" where
  "joinSlash [] = []"
| "joinSlash [e] = e"
| "joinSlash (e # es) = e @ CHR ''/'' # joinSlash es"

subsection \<open>Package path/filepath (Unix separator)\<close>

text \<open>
  \<^verbatim>\<open>filepath.Clean\<close> works on the elements between slashes: empty elements and
  \<^verbatim>\<open>.\<close> are dropped, \<^verbatim>\<open>..\<close> removes the element before it (it is dropped at
  the root and kept at the start of a relative path). The second argument is the stack of
  elements kept so far, last one first.
\<close>

fun cleanElems :: "bool \<Rightarrow> string list \<Rightarrow> string list \<Rightarrow> string list" where
  "cleanElems rooted acc [] = rev acc"
| "cleanElems rooted acc (e # es) =
     (if e = [] \<or> e = ''.'' then cleanElems rooted acc es
      else if e = ''..'' then
        (case acc of
           [] \<Rightarrow> if rooted then cleanElems rooted [] es else cleanElems rooted [e] es
         | a # as \<Rightarrow> if a = ''..'' then cleanElems rooted (e # acc) es
                     else cleanElems rooted as es)
      else cleanElems rooted (e # acc) es)"

definition Clean :: "string \<Rightarrow> string" where
  "Clean p =
     (let rooted = HasPrefix p ''/'';
          s = joinSlash (cleanElems rooted [] (Split p CHR ''/''))
      in if rooted then CHR ''/'' # s else if s = [] then ''.'' else s)"

text \<open>\<^verbatim>\<open>filepath.Join(a, b)\<close>: the non-empty tail of the elements, joined and cleaned.\<close>

definition Join :: "string \<Rightarrow> string \<Rightarrow> string" where
  "Join a b =
     (if a \<noteq> [] then Clean (a @ CHR ''/'' # b)
      else if b \<noteq> [] then Clean b
      else [])"

text \<open>
  \<^verbatim>\<open>filepath.Base\<close>: trailing slashes are removed, then everything up to the last
  slash. The empty path gives \<^verbatim>\<open>.\<close>, a path of slashes only gives \<^verbatim>\<open>/\<close>.
\<close>

definition stripSlashes :: "string \<Rightarrow> string" where
  "stripSlashes p = rev (dropWhile (\<lambda>c. c = CHR ''/'') (rev p))"

definition Base :: "string \<Rightarrow> string" where
  "Base p =
     (if p = [] then ''.''
      else let q = rev (takeWhile (\<lambda>c. c \<noteq> CHR ''/'') (rev (stripSlashes p)))
           in if q = [] then ''/'' else q)"

subsection \<open>Package strconv and package time\<close>

definition isDigit :: "char \<Rightarrow> bool" where
  "isDigit c = (CHR ''0'' \<le> c \<and> c \<le> CHR ''9'')"

definition digitsValue :: "string \<Rightarrow> int" where
  "digitsValue ds = foldl (\<lambda>n c. n * 10 + (int (of_char c) - 48)) 0 ds"

text \<open>
  \<^verbatim>\<open>strconv.Atoi\<close> on a 64-bit platform: an optional sign, at least one decimal digit,
  nothing else, and a value that fits \<^verbatim>\<open>int\<close>. \<^const>\<open>None\<close> is the error.
\<close>

definition Atoi :: "string \<Rightarrow> int option" where
  "Atoi s =
     (let neg = (s \<noteq> [] \<and> hd s = CHR ''-'');
          ds = (if s \<noteq> [] \<and> (hd s = CHR ''-'' \<or> hd s = CHR ''+'') then tl s else s);
          v = (if neg then - digitsValue ds else digitsValue ds)
      in if ds = [] \<or> \<not> list_all isDigit ds then None
         else if - (2 ^ 63) \<le> v \<and> v < 2 ^ 63 then Some v
         else None)"

text \<open>
  The reading of the clock, as local calendar fields. \<^verbatim>\<open>Format("20060102-150405")\<close>
  prints the year on at least four digits and the other fields on two.
\<close>

record gotime =
  t_year :: nat
  t_month :: nat
  t_day :: nat
  t_hour :: nat
  t_minute :: nat
  t_second :: nat

fun decimal :: "nat \<Rightarrow> string" where
  "decimal n =
     (if n < 10 then [char_of (48 + n)]
      else decimal (n div 10) @ [char_of (48 + n mod 10)])"

definition zeroPad :: "nat \<Rightarrow> nat \<Rightarrow> string" where
  "zeroPad w n = replicate (w - length (decimal n)) CHR ''0'' @ decimal n"

definition Format :: "gotime \<Rightarrow> string" where
  "Format t =
     zeroPad 4 (t_year t) @ zeroPad 2 (t_month t) @ zeroPad 2 (t_day t) @ ''-''
       @ zeroPad 2 (t_hour t) @ zeroPad 2 (t_minute t) @ zeroPad 2 (t_second t)"

subsection \<open>Package crypto/sha256 and the \<^verbatim>\<open>%x\<close> verb\<close>

type_synonym uint32 = "32 word"

definition rotr32 :: "nat \<Rightarrow> uint32 \<Rightarrow> uint32" where
  "rotr32 n x = or (drop_bit n x) (push_bit (32 - n) x)"

definition sha256_K :: "uint32 list" where
  "sha256_K =
    [1116352408, 1899447441, 3049323471, 3921009573, 961987163, 1508970993,
     2453635748, 2870763221, 3624381080, 310598401, 607225278, 1426881987,
     1925078388, 2162078206, 2614888103, 3248222580, 3835390401, 4022224774,
     264347078, 604807628, 770255983, 1249150122, 1555081692, 1996064986,
     2554220882, 2821834349, 2952996808, 3210313671, 3336571891, 3584528711,
     113926993, 338241895, 666307205, 773529912, 1294757372, 1396182291,
     1695183700, 1986661051, 2177026350, 2456956037, 2730485921, 2820302411,
     3259730800, 3345764771, 3516065817, 3600352804, 4094571909, 275423344,
     430227734, 506948616, 659060556, 883997877, 958139571, 1322822218,
     1537002063, 1747873779, 1955562222, 2024104815, 2227730452, 2361852424,
     2428436474, 2756734187, 3204031479, 3329325298]"

definition sha256_init :: "uint32 list" where
  "sha256_init =
    [1779033703, 3144134277, 1013904242, 2773480762,
     1359893119, 2600822924, 528734635, 1541459225]"

text \<open>The sixteen big-endian words of a 64-byte chunk.\<close>

fun beWords :: "string \<Rightarrow> uint32 list" where
  "beWords (a # b # c # d # rest) =
     (or (push_bit 24 (of_char a))
        (or (push_bit 16 (of_char b)) (or (push_bit 8 (of_char c)) (of_char d))))
       # beWords rest"
| "beWords _ = []"

text \<open>The message schedule: \<^term>\<open>schedule 48\<close> extends the sixteen words to sixty-four.\<close>

fun schedule :: "nat \<Rightarrow> uint32 list \<Rightarrow> uint32 list" where
  "schedule 0 w = w"
| "schedule (Suc n) w =
     (let i = length w;
          v1 = w ! (i - 2);
          t1 = xor (xor (rotr32 17 v1) (rotr32 19 v1)) (drop_bit 10 v1);
          v2 = w ! (i - 15);
          t2 = xor (xor (rotr32 7 v2) (rotr32 18 v2)) (drop_bit 3 v2)
      in schedule n (w @ [t1 + w ! (i - 7) + t2 + w ! (i - 16)]))"

text \<open>The sixty-four rounds on the working variables \<open>a\<close> to \<open>h\<close>.\<close>

fun rounds :: "(uint32 \<times> uint32) list \<Rightarrow> uint32 list \<Rightarrow> uint32 list" where
  "rounds ((k, wi) # kws) [a, b, c, d, e, f, g, h] =
     (let t1 = h + xor (xor (rotr32 6 e) (rotr32 11 e)) (rotr32 25 e)
                 + xor (and e f) (and (not e) g) + k + wi;
          t2 = xor (xor (rotr32 2 a) (rotr32 13 a)) (rotr32 22 a)
                 + xor (xor (and a b) (and a c)) (and b c)
      in rounds kws [t1 + t2, a, b, c, d + t1, e, f, g])"
| "rounds _ s = s"

definition block :: "uint32 list \<Rightarrow> string \<Rightarrow> uint32 list" where
  "block hs p = map2 (+) hs (rounds (zip sha256_K (schedule 48 (beWords p))) hs)"

function blocks :: "uint32 list \<Rightarrow> string \<Rightarrow> uint32 list" where
  "blocks hs p = (if 64 \<le> length p then blocks (block hs (take 64 p)) (drop 64 p) else hs)"
  by pat_completeness auto
termination
  by (relation "measure (\<lambda>(hs, p). length p)") auto

declare blocks.simps [simp del]

definition beBytes :: "nat \<Rightarrow> int \<Rightarrow> string" where
  "beBytes n v = map (\<lambda>i. char_of (v div 256 ^ (n - 1 - i))) [0..<n]"

text \<open>Padding: the byte 0x80, zeros up to 56 modulo 64, the bit length on eight bytes.\<close>

definition shaPad :: "string \<Rightarrow> string" where
  "shaPad m =
     m @ [char_of (0x80 :: nat)] @ replicate ((119 - length m mod 64) mod 64) (char_of (0 :: nat))
       @ beBytes 8 (8 * int (length m))"

definition Sum256 :: "string \<Rightarrow> string" where
  "Sum256 m = concat (map (\<lambda>w. beBytes 4 (uint w)) (blocks sha256_init (shaPad m)))"

definition hexDigit :: "nat \<Rightarrow> char" where
  "hexDigit n = ''0123456789abcdef'' ! (n mod 16)"

text \<open>\<^verbatim>\<open>fmt.Sprintf("%x", bytes)\<close>: two lower-case hexadecimal digits for each byte.\<close>

definition hex :: "string \<Rightarrow> string" where
  "hex bs = concat (map (\<lambda>c. [hexDigit (of_char c div 16), hexDigit (of_char c mod 16)]) bs)"

subsection \<open>Package os: the file system\<close>

text \<open>
  The file system is a finite table from cleaned paths (relative to the working directory
  of the server) to nodes. Each operation cleans the path it is given, as the kernel
  resolves \<^verbatim>\<open>./data/backups\<close> and \<^verbatim>\<open>data/backups\<close> to the same node; there are
  no symbolic links. A path is resolved through its directories, outermost first: a
  missing directory gives \<^verbatim>\<open>ENOENT\<close>, a file in the place of a directory gives
  \<^verbatim>\<open>ENOTDIR\<close>, and an entry of the table below such a place is not reached. An
  operation fails only for what the tree itself decides: these two errors, a directory
  where a file is needed, a directory that is not empty. Permissions, quotas and device
  errors are not modelled.
\<close>

datatype node = File string | Dir

type_synonym fs = "(string \<times> node) list"

datatype oserr = ENOENT | ENOTDIR

text \<open>
  The directory part of a cleaned path; empty for a name in the working directory, which
  always exists.
\<close>

definition parentOf :: "string \<Rightarrow> string" where
  "parentOf k = rev (drop 1 (dropWhile (\<lambda>c. c \<noteq> CHR ''/'') (rev k)))"

text \<open>Whether a directory path can be walked; \<^const>\<open>None\<close> when it can.\<close>

function resolveDir :: "fs \<Rightarrow> string \<Rightarrow> oserr option" where
  "resolveDir fs d =
     (if d = [] then None
      else case resolveDir fs (parentOf d) of
             Some e \<Rightarrow> Some e
           | None \<Rightarrow>
               (case map_of fs d of
                  None \<Rightarrow> Some ENOENT
                | Some (File b) \<Rightarrow> Some ENOTDIR
                | Some Dir \<Rightarrow> None))"
  by pat_completeness auto
termination
proof (relation "measure (\<lambda>(fs, d). length d)")
  show "wf (measure (\<lambda>(fs :: fs, d :: string). length d))"
    by simp
next
  fix fs :: fs and d :: string
  assume "d \<noteq> []"
  have "length (dropWhile (\<lambda>c. c \<noteq> CHR ''/'') (rev d)) \<le> length d"
    using length_dropWhile_le [of "\<lambda>c. c \<noteq> CHR ''/''" "rev d"] by simp
  moreover from \<open>d \<noteq> []\<close> have "0 < length d"
    by simp
  ultimately have "length (parentOf d) < length d"
    unfolding parentOf_def length_rev length_drop by arith
  then show "((fs, parentOf d), (fs, d)) \<in> measure (\<lambda>(fs, d). length d)"
    by simp
qed

declare resolveDir.simps [simp del]

definition resolve :: "fs \<Rightarrow> string \<Rightarrow> oserr + node" where
  "resolve fs k =
     (case resolveDir fs (parentOf k) of
        Some e \<Rightarrow> Inl e
      | None \<Rightarrow> (case map_of fs k of None \<Rightarrow> Inl ENOENT | Some n \<Rightarrow> Inr n))"

definition nodeAt :: "fs \<Rightarrow> string \<Rightarrow> node option" where
  "nodeAt fs p = (case resolve fs (Clean p) of Inl e \<Rightarrow> None | Inr n \<Rightarrow> Some n)"

text \<open>
  \<^verbatim>\<open>os.Stat\<close>: the error, \<^const>\<open>None\<close> for \<^verbatim>\<open>nil\<close>. \<^verbatim>\<open>os.IsNotExist\<close> holds of
  \<^verbatim>\<open>ENOENT\<close> only.
\<close>

definition os_Stat :: "fs \<Rightarrow> string \<Rightarrow> oserr option" where
  "os_Stat fs p = (case resolve fs (Clean p) of Inl e \<Rightarrow> Some e | Inr n \<Rightarrow> None)"

definition IsNotExist :: "oserr option \<Rightarrow> bool" where
  "IsNotExist err = (err = Some ENOENT)"

text \<open>
  \<^verbatim>\<open>os.ReadFile\<close> returns the bytes and whether \<^verbatim>\<open>err == nil\<close>. A path that cannot
  be opened gives \<^verbatim>\<open>nil\<close>; a directory can be opened but not read, which gives an
  empty, non-nil slice with the error.
\<close>

definition os_ReadFile :: "fs \<Rightarrow> string \<Rightarrow> string option \<times> bool" where
  "os_ReadFile fs p =
     (case nodeAt fs p of
        None \<Rightarrow> (None, False)
      | Some Dir \<Rightarrow> (Some [], False)
      | Some (File b) \<Rightarrow> (Some b, True))"

text \<open>
  \<^verbatim>\<open>os.WriteFile\<close> replaces the content of a file, or creates it in a directory that
  can be walked; \<^const>\<open>None\<close> is the error.
\<close>

definition os_WriteFile :: "fs \<Rightarrow> string \<Rightarrow> string \<Rightarrow> fs option" where
  "os_WriteFile fs p b =
     (let k = Clean p
      in case resolve fs k of
           Inr Dir \<Rightarrow> None
         | Inr (File old) \<Rightarrow> Some (AList.update k (File b) fs)
         | Inl ENOTDIR \<Rightarrow> None
         | Inl ENOENT \<Rightarrow>
             if resolveDir fs (parentOf k) = None then Some (AList.update k (File b) fs)
             else None)"

text \<open>
  A directory entry has a name without a slash, other than \<^verbatim>\<open>.\<close> and \<^verbatim>\<open>..\<close>.
  The entries of the directory \<open>k\<close> are the names \<open>n\<close> with a node at \<open>k/n\<close>.
\<close>

definition validName :: "string \<Rightarrow> bool" where
  "validName n = (n \<noteq> [] \<and> CHR ''/'' \<notin> set n \<and> n \<noteq> ''.'' \<and> n \<noteq> ''..'')"

definition childNames :: "fs \<Rightarrow> string \<Rightarrow> string list" where
  "childNames fs k =
     filter validName
       (map (drop (Suc (length k))) (filter (\<lambda>q. HasPrefix q (k @ ''/'')) (map fst fs)))"

definition hasChildren :: "fs \<Rightarrow> string \<Rightarrow> bool" where
  "hasChildren fs k = (childNames fs k \<noteq> [])"

text \<open>\<^verbatim>\<open>os.Remove\<close> removes a file or an empty directory; \<^const>\<open>None\<close> is the error.\<close>

definition os_Remove :: "fs \<Rightarrow> string \<Rightarrow> fs option" where
  "os_Remove fs p =
     (let k = Clean p
      in case resolve fs k of
           Inl e \<Rightarrow> None
         | Inr (File b) \<Rightarrow> Some (AList.delete k fs)
         | Inr Dir \<Rightarrow> if hasChildren fs k then None else Some (AList.delete k fs))"

text \<open>
  \<^verbatim>\<open>os.ReadDir\<close> returns the entries of a directory sorted by name, each with its
  \<^verbatim>\<open>IsDir\<close> flag; \<^const>\<open>None\<close> is the error.
\<close>

definition os_ReadDir :: "fs \<Rightarrow> string \<Rightarrow> (string \<times> bool) list option" where
  "os_ReadDir fs p =
     (let k = Clean p
      in if resolve fs k = Inr Dir
         then Some (map (\<lambda>n. (n, map_of fs (k @ ''/'' @ n) = Some Dir))
                      (sort (remdups (childNames fs k))))
         else None)"

subsection \<open>Package encoding/json and package net/http\<close>

text \<open>
  The values \<^verbatim>\<open>json.Unmarshal\<close> stores in an \<^verbatim>\<open>interface{}\<close>: \<^verbatim>\<open>nil\<close>,
  \<^verbatim>\<open>bool\<close>, \<^verbatim>\<open>float64\<close> (its 64 bits), \<^verbatim>\<open>string\<close>, \<^verbatim>\<open>[]interface{}\<close> and
  \<^verbatim>\<open>map[string]interface{}\<close> (a table read with \<^const>\<open>map_of\<close>).
\<close>

datatype json =
    JNull
  | JBool bool
  | JNumber "64 word"
  | JString string
  | JArray "json list"
  | JObject "(string \<times> json) list"

text \<open>
  The parser and the printers of the standard library are parameters of the model:
  \<^verbatim>\<open>json.Unmarshal\<close> into an \<^verbatim>\<open>interface{}\<close>, \<^verbatim>\<open>json.MarshalIndent\<close> with two
  spaces, the output of \<^verbatim>\<open>json.Encoder.Encode\<close>, and \<^verbatim>\<open>json.Decoder.Decode\<close> into
  a struct with the one field \<^verbatim>\<open>filename\<close>. \<^const>\<open>None\<close> is the error. So is the
  order \<^verbatim>\<open>sort.Slice\<close> gives to a slice of more than twelve strings, where the library
  runs a quicksort that is not stable.
\<close>

record stdlib =
  json_Unmarshal :: "string \<Rightarrow> json option"
  json_MarshalIndent :: "json \<Rightarrow> string option"
  json_Encode :: "json \<Rightarrow> string"
  json_DecodeFilename :: "string \<Rightarrow> string option"
  sort_Long :: "(string \<Rightarrow> string \<Rightarrow> bool) \<Rightarrow> string list \<Rightarrow> string list"

text \<open>
  A request: the method, the headers and the query parameters (absent ones are
  \<^const>\<open>None\<close>), and the body as \<^verbatim>\<open>io.ReadAll\<close> returns it (\<^const>\<open>None\<close> when the
  read fails).
\<close>

record request =
  req_method :: string
  req_header :: "string \<Rightarrow> string option"
  req_query :: "string \<Rightarrow> string option"
  req_body :: "string option"

text \<open>\<^verbatim>\<open>Header.Get\<close> and \<^verbatim>\<open>Query().Get\<close>: the empty string when the key is absent.\<close>

definition getOrEmpty :: "(string \<Rightarrow> string option) \<Rightarrow> string \<Rightarrow> string" where
  "getOrEmpty m k = (case m k of None \<Rightarrow> [] | Some v \<Rightarrow> v)"

record response =
  status :: nat
  content_type :: "string option"
  etag :: "string option"
  body :: string

text \<open>
  \<^verbatim>\<open>http.Error\<close> keeps the headers already set except the content type, and writes the
  message followed by a newline. Where a handler appends the text of an error of the
  operating system to its message, the model keeps the handler's part only. The header
  \<^verbatim>\<open>X-Content-Type-Options\<close> is not recorded.
\<close>

definition http_Error :: "string option \<Rightarrow> string \<Rightarrow> nat \<Rightarrow> response" where
  "http_Error tag msg code =
     \<lparr>status = code, content_type = Some ''text/plain; charset=utf-8'', etag = tag,
      body = msg @ [newline]\<rparr>"

definition jsonOK :: "string option \<Rightarrow> string \<Rightarrow> response" where
  "jsonOK tag b = \<lparr>status = 200, content_type = Some ''application/json'', etag = tag, body = b\<rparr>"

subsection \<open>Constants\<close>

definition dataDir :: string where
  "dataDir = ''./data''"

definition backupDir :: string where
  "backupDir = ''./data/backups''"

definition defaultMaxBackups :: int where
  "defaultMaxBackups = 10"

subsection \<open>Checksum and ETag\<close>

definition computeETag :: "string option \<Rightarrow> string" where
  "computeETag b =
     (case b of
        None \<Rightarrow> [dquote, CHR ''0'', dquote]
      | Some bs \<Rightarrow> [dquote] @ hex (take 8 (Sum256 bs)) @ [dquote])"

definition writeChecksum :: "string \<Rightarrow> fs \<Rightarrow> fs" where
  "writeChecksum path fs =
     (case os_ReadFile fs path of
        (Some b, True) \<Rightarrow>
          (case os_WriteFile fs (path @ ''.sha256'') (hex (Sum256 b) @ [newline]) of
             None \<Rightarrow> fs
           | Some fs' \<Rightarrow> fs')
      | _ \<Rightarrow> fs)"

subsection \<open>Validation\<close>

text \<open>The result is the error message, \<^const>\<open>None\<close> for \<^verbatim>\<open>nil\<close>.\<close>

definition validateByPath :: "string \<Rightarrow> json \<Rightarrow> string option" where
  "validateByPath path data =
     (let base = Base path
      in if base = ''environments.json'' then
           (case data of
              JObject m \<Rightarrow>
                if map_of m ''environments'' = None then Some ''missing environments array''
                else None
            | _ \<Rightarrow> Some ''environments.json must be an object'')
         else if base = ''releases.json'' then
           (case data of
              JObject m \<Rightarrow> None
            | _ \<Rightarrow> Some ''releases.json must be an object keyed by environment'')
         else if base = ''holidays.json'' then
           (case data of
              JObject m \<Rightarrow>
                if map_of m ''holidays'' = None then Some ''missing holidays array''
                else None
            | _ \<Rightarrow> Some ''holidays.json must be an object'')
         else None)"

subsection \<open>Listing and rotating backups\<close>

text \<open>The result is the error message on the left, the names on the right.\<close>

definition listBackups :: "string \<Rightarrow> fs \<Rightarrow> string + string list" where
  "listBackups filePrefix fs =
     (case os_ReadDir fs backupDir of
        None \<Rightarrow> Inl ''failed to read backup directory''
      | Some files \<Rightarrow>
          Inr (map fst (filter (\<lambda>(name, isDir). \<not> isDir \<and> HasPrefix name filePrefix) files)))"

text \<open>The comparison given to \<^verbatim>\<open>sort.Slice\<close>.\<close>

definition backupLess :: "string \<Rightarrow> string \<Rightarrow> bool" where
  "backupLess bi bj =
     (let partsI = Split bi CHR ''.'';
          partsJ = Split bj CHR ''.''
      in if length partsI < 3 \<or> length partsJ < 3 then bi > bj
         else partsI ! 1 > partsJ ! 1)"

text \<open>
  On a slice of up to twelve elements \<^verbatim>\<open>sort.Slice\<close> runs an insertion sort: each
  element moves left while it is less than the one before it. The accumulator is the
  sorted prefix, last element first.
\<close>

fun insertLeft :: "('a \<Rightarrow> 'a \<Rightarrow> bool) \<Rightarrow> 'a \<Rightarrow> 'a list \<Rightarrow> 'a list" where
  "insertLeft lt x [] = [x]"
| "insertLeft lt x (y # ys) =
     (if lt x y then y # insertLeft lt x ys else x # y # ys)"

definition insertionSort :: "('a \<Rightarrow> 'a \<Rightarrow> bool) \<Rightarrow> 'a list \<Rightarrow> 'a list" where
  "insertionSort lt xs = rev (foldl (\<lambda>acc x. insertLeft lt x acc) [] xs)"

text \<open>
  On a longer slice the order is the one the library gives, \<open>sort_Long\<close>: it is not
  stable, so names that compare equal (a backup and its sidecar) come out in either
  order. The library only swaps elements, so its result is a rearrangement of the slice;
  a parameter that returns anything else is not the library and is not used.
\<close>

definition rearranged :: "string list \<Rightarrow> string list \<Rightarrow> bool" where
  "rearranged ys xs = (sort ys = sort xs)"

definition sortSlice ::
  "stdlib \<Rightarrow> (string \<Rightarrow> string \<Rightarrow> bool) \<Rightarrow> string list \<Rightarrow> string list" where
  "sortSlice lib lt xs =
     (if length xs \<le> 12 then insertionSort lt xs
      else if rearranged (sort_Long lib lt xs) xs then sort_Long lib lt xs
      else insertionSort lt xs)"

text \<open>
  How a call ends: with \<^verbatim>\<open>nil\<close>, with an error value, or with a run-time panic.
\<close>

datatype outcome = Done | Failed string | Panic

text \<open>The deletion loop: it stops at the first removal that fails.\<close>

fun removeBackups :: "string list \<Rightarrow> fs \<Rightarrow> outcome \<times> fs" where
  "removeBackups [] fs = (Done, fs)"
| "removeBackups (b # bs) fs =
     (case os_Remove fs (Join backupDir b) of
        None \<Rightarrow> (Failed (''failed to delete backup '' @ Join backupDir b), fs)
      | Some fs' \<Rightarrow> removeBackups bs fs')"

text \<open>
  The result is the outcome and the file system left behind. A negative limit makes the
  loop index the slice below zero, which panics before anything is removed.
\<close>

definition cleanupOldBackups ::
  "stdlib \<Rightarrow> string \<Rightarrow> int \<Rightarrow> fs \<Rightarrow> outcome \<times> fs" where
  "cleanupOldBackups lib baseFilename maxBackups fs =
     (case listBackups (TrimSuffix baseFilename ''.json'') fs of
        Inl err \<Rightarrow> (Failed err, fs)
      | Inr backups \<Rightarrow>
          if int (length backups) \<le> maxBackups then (Done, fs)
          else if maxBackups < 0 then (Panic, fs)
          else removeBackups (drop (nat maxBackups) (sortSlice lib backupLess backups)) fs)"

subsection \<open>Reading and writing a document\<close>

definition serveJSONFile :: "fs \<Rightarrow> string \<Rightarrow> response" where
  "serveJSONFile fs filePath =
     (if IsNotExist (os_Stat fs filePath) then jsonOK None ''{}''
      else (case os_ReadFile fs filePath of
              (Some data, True) \<Rightarrow> jsonOK None data
            | _ \<Rightarrow> http_Error None ''Error reading file'' 500))"

text \<open>
  The backup block of \<^verbatim>\<open>updateJSONFileWithBackup\<close>, entered when the target exists and
  the precondition did not fail. \<open>backupTarget\<close> is the path of the new backup,
  \<open>snapshotFile\<close> copies the target there and writes the sidecar (the second
  component tells whether the backup was written), \<open>backupAndRotate\<close> adds the
  rotation. A failure is logged and the handler goes on; a panic ends it.
\<close>

definition backupTarget :: "gotime \<Rightarrow> string \<Rightarrow> string" where
  "backupTarget now filePath =
     Join backupDir (TrimSuffix (Base filePath) ''.json'' @ ''.'' @ Format now @ ''.json'')"

definition snapshotFile :: "gotime \<Rightarrow> string \<Rightarrow> fs \<Rightarrow> fs \<times> bool" where
  "snapshotFile now filePath fs =
     (case os_ReadFile fs filePath of
        (Some origData, True) \<Rightarrow>
          (case os_WriteFile fs (backupTarget now filePath) origData of
             None \<Rightarrow> (fs, False)
           | Some fs1 \<Rightarrow> (writeChecksum (backupTarget now filePath) fs1, True))
      | _ \<Rightarrow> (fs, False))"

definition backupAndRotate ::
  "stdlib \<Rightarrow> gotime \<Rightarrow> string \<Rightarrow> int \<Rightarrow> fs \<Rightarrow> outcome \<times> fs" where
  "backupAndRotate lib now filePath maxBackups fs =
     (case snapshotFile now filePath fs of
        (fs2, True) \<Rightarrow>
          (case cleanupOldBackups lib (Base filePath) maxBackups fs2 of
             (Panic, fs3) \<Rightarrow> (Panic, fs3)
           | (_, fs3) \<Rightarrow> (Done, fs3))
      | (fs2, False) \<Rightarrow> (Done, fs2))"

text \<open>The last block: the new content is written and the new ETag returned.\<close>

definition writeDocument :: "string \<Rightarrow> string \<Rightarrow> fs \<Rightarrow> response \<times> fs" where
  \<open>writeDocument filePath prettyJSON fs =
     (case os_WriteFile fs filePath prettyJSON of
        None \<Rightarrow> (http_Error None ''Error writing file'' 500, fs)
      | Some fs' \<Rightarrow>
          (jsonOK (Some (computeETag (Some prettyJSON)))
             ''{"success": true, "message": "File updated successfully with backup"}'',
           fs'))\<close>

text \<open>
  A panic is recovered by the server, which closes the connection: no status line, no
  headers, no body.
\<close>

definition aborted :: response where
  "aborted = \<lparr>status = 0, content_type = None, etag = None, body = []\<rparr>"

definition updateJSONFileWithBackup ::
  "stdlib \<Rightarrow> gotime \<Rightarrow> request \<Rightarrow> string \<Rightarrow> int \<Rightarrow> fs \<Rightarrow> response \<times> fs" where
  "updateJSONFileWithBackup lib now r filePath maxBackups fs =
     (case req_body r of
        None \<Rightarrow> (http_Error None ''Error reading request body'' 400, fs)
      | Some raw \<Rightarrow>
     (case json_Unmarshal lib raw of
        None \<Rightarrow> (http_Error None ''Invalid JSON'' 400, fs)
      | Some jsonData \<Rightarrow>
     (case validateByPath filePath jsonData of
        Some err \<Rightarrow> (http_Error None (''Schema validation failed: '' @ err) 400, fs)
      | None \<Rightarrow>
     (case json_MarshalIndent lib jsonData of
        None \<Rightarrow> (http_Error None ''Error formatting JSON'' 500, fs)
      | Some prettyJSON \<Rightarrow>
          if os_Stat fs filePath = None then
            (let ifMatch = getOrEmpty (req_header r) ''If-Match'';
                 current = fst (os_ReadFile fs filePath)
             in if ifMatch \<noteq> [] \<and> computeETag current \<noteq> ifMatch
                then (http_Error (Some (computeETag current)) ''Precondition Failed'' 412, fs)
                else (case backupAndRotate lib now filePath maxBackups fs of
                        (Panic, fs') \<Rightarrow> (aborted, fs')
                      | (_, fs') \<Rightarrow> writeDocument filePath prettyJSON fs'))
          else writeDocument filePath prettyJSON fs))))"

subsection \<open>The document endpoints\<close>

definition maxBackupsOf :: "request \<Rightarrow> int" where
  "maxBackupsOf r =
     (let maxBackupsStr = getOrEmpty (req_header r) ''X-Max-Backups''
      in if maxBackupsStr \<noteq> [] then
           (case Atoi maxBackupsStr of
              Some val \<Rightarrow> if val > 0 then val else defaultMaxBackups
            | None \<Rightarrow> defaultMaxBackups)
         else defaultMaxBackups)"

text \<open>
  The three document handlers differ in the file name only: \<^verbatim>\<open>handleEmployees\<close>,
  \<^verbatim>\<open>handleDaysOff\<close> and \<^verbatim>\<open>handleHolidays\<close>.
\<close>

definition handleDocument ::
  "string \<Rightarrow> stdlib \<Rightarrow> gotime \<Rightarrow> request \<Rightarrow> fs \<Rightarrow> response \<times> fs" where
  "handleDocument name lib now r fs =
     (let filePath = Join dataDir name
      in if req_method r = ''GET'' then (serveJSONFile fs filePath, fs)
         else if req_method r = ''POST'' then
           updateJSONFileWithBackup lib now r filePath (maxBackupsOf r) fs
         else (http_Error None ''Method not allowed'' 405, fs))"

definition handleEmployees :: "stdlib \<Rightarrow> gotime \<Rightarrow> request \<Rightarrow> fs \<Rightarrow> response \<times> fs" where
  "handleEmployees = handleDocument ''environments.json''"

definition handleDaysOff :: "stdlib \<Rightarrow> gotime \<Rightarrow> request \<Rightarrow> fs \<Rightarrow> response \<times> fs" where
  "handleDaysOff = handleDocument ''releases.json''"

definition handleHolidays :: "stdlib \<Rightarrow> gotime \<Rightarrow> request \<Rightarrow> fs \<Rightarrow> response \<times> fs" where
  "handleHolidays = handleDocument ''holidays.json''"

subsection \<open>The backups endpoint\<close>

definition handleBackups :: "stdlib \<Rightarrow> request \<Rightarrow> fs \<Rightarrow> response \<times> fs" where
  \<open>handleBackups lib r fs =
     (if req_method r = ''GET'' then
        (let filename = getOrEmpty (req_query r) ''filename''
         in if filename \<noteq> [] then
              (case os_ReadFile fs (Join backupDir (Base filename)) of
                 (Some data, True) \<Rightarrow>
                   (jsonOK None
                      (json_Encode lib
                         (JObject [(''filename'', JString (Base filename)),
                                   (''checksum'', JString (computeETag (Some data))),
                                   (''content'', JString data)])),
                    fs)
               | _ \<Rightarrow> (http_Error None ''Error reading backup'' 500, fs))
            else
              (let filePrefix = getOrEmpty (req_query r) ''prefix''
               in if filePrefix = [] then (http_Error None ''Missing 'prefix' parameter'' 400, fs)
                  else (case listBackups filePrefix fs of
                          Inl err \<Rightarrow> (http_Error None (''Error listing backups: '' @ err) 500, fs)
                        | Inr backups \<Rightarrow>
                            (jsonOK None (json_Encode lib (JArray (map JString backups))), fs))))
      else if req_method r = ''DELETE'' then
        (case (case req_body r of None \<Rightarrow> None | Some raw \<Rightarrow> json_DecodeFilename lib raw) of
           None \<Rightarrow> (http_Error None ''Invalid request body'' 400, fs)
         | Some requested \<Rightarrow>
             if requested = [] then (http_Error None ''Missing filename'' 400, fs)
             else (case os_Remove fs (Join backupDir (Base requested)) of
                     None \<Rightarrow> (http_Error None ''Error deleting backup'' 500, fs)
                   | Some fs' \<Rightarrow>
                       (jsonOK None ''{"success": true, "message": "Backup deleted successfully"}'',
                        fs')))
      else (http_Error None ''Method not allowed'' 405, fs))\<close>

subsection \<open>Notions used in the statements\<close>

text \<open>
  The path of the entry \<open>n\<close> of the backup directory, and the names a listing for a
  prefix returns: the entries of the backup directory that are files and start with the
  prefix.
\<close>

definition backupFile :: "string \<Rightarrow> string" where
  "backupFile n = ''data/backups/'' @ n"

definition backupNames :: "string \<Rightarrow> fs \<Rightarrow> string set" where
  "backupNames pre fs =
     {n. validName n \<and> HasPrefix n pre \<and> (\<exists>b. map_of fs (backupFile n) = Some (File b))}"

text \<open>
  The timestamp of a backup name, as the rotation reads it: the second piece between
  dots. A comparison is a strict order on a set when it is transitive there and decides
  every pair of different elements.
\<close>

definition stamp :: "string \<Rightarrow> string" where
  "stamp n = Split n CHR ''.'' ! 1"

definition strictOn :: "'a set \<Rightarrow> ('a \<Rightarrow> 'a \<Rightarrow> bool) \<Rightarrow> bool" where
  "strictOn A lt =
     ((\<forall>a\<in>A. \<forall>b\<in>A. \<forall>c\<in>A. lt a b \<longrightarrow> lt b c \<longrightarrow> lt a c)
      \<and> (\<forall>a\<in>A. \<forall>b\<in>A. a \<noteq> b \<longrightarrow> lt a b \<or> lt b a))"

subsection \<open>Sample inputs\<close>

text \<open>
  Concrete inputs for the instances below. \<open>sampleLib\<close> stands for the JSON library on
  the few bodies used here: it reads and prints the empty object, the empty array and an
  object with one empty array as the library does, and reports an error on the other
  bodies, among them the unterminated \<^verbatim>\<open>{\<close>. No instance below sorts more than
  twelve names.
\<close>

definition sampleLib :: stdlib where
  \<open>sampleLib =
     \<lparr>json_Unmarshal =
        (\<lambda>b. if b = ''{}'' then Some (JObject [])
             else if b = ''[]'' then Some (JArray [])
             else if b = ''{"staging": []}'' then Some (JObject [(''staging'', JArray [])])
             else None),
      json_MarshalIndent =
        (\<lambda>v. if v = JObject [] then Some ''{}''
             else if v = JArray [] then Some ''[]''
             else if v = JObject [(''staging'', JArray [])]
               then Some (''{'' @ [newline] @ ''  "staging": []'' @ [newline] @ ''}'')
             else None),
      json_Encode = (\<lambda>v. []),
      json_DecodeFilename = (\<lambda>b. if b = ''{"filename": "."}'' then Some ''.'' else None),
      sort_Long = insertionSort\<rparr>\<close>

definition sampleTime :: gotime where
  "sampleTime =
     \<lparr>t_year = 2025, t_month = 4, t_day = 15, t_hour = 9, t_minute = 5, t_second = 0\<rparr>"

definition sampleFS :: fs where
  "sampleFS = [(''data'', Dir), (''data/backups'', Dir), (''data/releases.json'', File ''{}'')]"

definition emptyFS :: fs where
  "emptyFS = [(''data'', Dir), (''data/backups'', Dir)]"

definition noBackupDirFS :: fs where
  "noBackupDirFS = [(''data'', Dir), (''data/releases.json'', File ''{}'')]"

text \<open>A working directory in which \<^verbatim>\<open>data\<close> is a regular file, not a directory.\<close>

definition dataFileFS :: fs where
  "dataFileFS = [(''data'', File [])]"

definition postRequest :: "string \<Rightarrow> string option \<Rightarrow> request" where
  "postRequest raw ifMatch =
     \<lparr>req_method = ''POST'',
      req_header = (\<lambda>k. if k = ''If-Match'' then ifMatch else None),
      req_query = (\<lambda>k. None),
      req_body = Some raw\<rparr>"

definition getRequest :: request where
  "getRequest =
     \<lparr>req_method = ''GET'', req_header = (\<lambda>k. None), req_query = (\<lambda>k. None),
      req_body = Some []\<rparr>"

definition deleteRequest :: "string \<Rightarrow> request" where
  "deleteRequest raw =
     \<lparr>req_method = ''DELETE'', req_header = (\<lambda>k. None), req_query = (\<lambda>k. None),
      req_body = Some raw\<rparr>"

text \<open>
  Three backups of the environments document, each with the sidecar that
  \<open>writeChecksum\<close> wrote for it (the content \<^verbatim>\<open>{}\<close> and its SHA-256 hash).
\<close>

definition rotationFS :: fs where
  "rotationFS =
     [(''data'', Dir), (''data/backups'', Dir),
      (''data/backups/environments.20250101-000000.json'', File ''{}''),
      (''data/backups/environments.20250101-000000.json.sha256'',
         File (''44136fa355b3678a1146ad16f7e8649e94fb4fc21fe77e8310c060f61caaff8a'' @ [newline])),
      (''data/backups/environments.20250102-000000.json'', File ''{}''),
      (''data/backups/environments.20250102-000000.json.sha256'',
         File (''44136fa355b3678a1146ad16f7e8649e94fb4fc21fe77e8310c060f61caaff8a'' @ [newline])),
      (''data/backups/environments.20250103-000000.json'', File ''{}''),
      (''data/backups/environments.20250103-000000.json.sha256'',
         File (''44136fa355b3678a1146ad16f7e8649e94fb4fc21fe77e8310c060f61caaff8a'' @ [newline]))]"

section \<open>Properties\<close>

subsection \<open>Resolving paths\<close>

lemma resolveDir_None_iff:
  "d \<noteq> [] \<Longrightarrow>
   (resolveDir fs d = None) = (resolveDir fs (parentOf d) = None \<and> map_of fs d = Some Dir)"
  by (subst resolveDir.simps) (auto split: option.splits node.splits)

lemma resolveDir_same:
  assumes "\<forall>q. (map_of fs' q = Some Dir) = (map_of fs q = Some Dir)"
  shows "(resolveDir fs' d = None) = (resolveDir fs d = None)"
proof (induction d rule: length_induct)
  case (1 d)
  show ?case
  proof (cases "d = []")
    case True
    then show ?thesis by (simp add: resolveDir.simps)
  next
    case False
    then have "length (parentOf d) < length d"
      using length_dropWhile_le [of "\<lambda>c. c \<noteq> CHR ''/''" "rev d"]
      by (cases d) (simp_all add: parentOf_def)
    with 1 have "(resolveDir fs' (parentOf d) = None) = (resolveDir fs (parentOf d) = None)"
      by blast
    with assms False show ?thesis by (simp add: resolveDir_None_iff)
  qed
qed

lemma nodeAt_eq:
  "nodeAt fs p
     = (if resolveDir fs (parentOf (Clean p)) = None then map_of fs (Clean p) else None)"
  by (auto simp: nodeAt_def resolve_def split: option.splits)

lemma os_Stat_None: "(os_Stat fs p = None) = (nodeAt fs p \<noteq> None)"
  by (simp add: os_Stat_def nodeAt_def split: sum.splits)

lemma os_Stat_nodeAt: "nodeAt fs p = Some n \<Longrightarrow> os_Stat fs p = None"
  by (simp add: os_Stat_None)

lemma os_ReadFile_file: "nodeAt fs p = Some (File b) \<Longrightarrow> os_ReadFile fs p = (Some b, True)"
  by (simp add: os_ReadFile_def)

lemma os_WriteFile_eq:
  "os_WriteFile fs p b =
     (if resolveDir fs (parentOf (Clean p)) = None \<and> map_of fs (Clean p) \<noteq> Some Dir
      then Some (AList.update (Clean p) (File b) fs) else None)"
  by (auto simp: os_WriteFile_def resolve_def Let_def
        split: option.splits node.splits sum.splits oserr.splits)

lemma os_WriteFile_map_of:
  "os_WriteFile fs p b = Some fs' \<Longrightarrow> map_of fs' = (map_of fs)(Clean p \<mapsto> File b)"
  by (auto simp: os_WriteFile_eq update_conv' split: if_splits)

lemma os_WriteFile_dirs:
  assumes "os_WriteFile fs p b = Some fs'"
  shows "(map_of fs' q = Some Dir) = (map_of fs q = Some Dir)"
  using assms by (auto simp: os_WriteFile_eq update_conv' split: if_splits)

lemma os_WriteFile_nodeAt:
  assumes "os_WriteFile fs p b = Some fs'"
  shows "nodeAt fs' p = Some (File b)"
proof -
  from assms have r: "resolveDir fs (parentOf (Clean p)) = None"
    by (simp add: os_WriteFile_eq split: if_splits)
  have "\<forall>q. (map_of fs' q = Some Dir) = (map_of fs q = Some Dir)"
    using os_WriteFile_dirs [OF assms] by blast
  from resolveDir_same [OF this] r have "resolveDir fs' (parentOf (Clean p)) = None"
    by simp
  then show ?thesis
    by (simp add: nodeAt_eq os_WriteFile_map_of [OF assms])
qed

lemma os_WriteFile_file:
  assumes "nodeAt fs p = Some (File old)"
  shows "os_WriteFile fs p b = Some (AList.update (Clean p) (File b) fs)"
  using assms by (auto simp: os_WriteFile_eq nodeAt_eq split: if_splits)

lemma os_Remove_map_of:
  "os_Remove fs p = Some fs' \<Longrightarrow> map_of fs' = (map_of fs)(Clean p := None)"
  by (auto simp: os_Remove_def Let_def delete_conv'
        split: sum.splits node.splits if_splits)

lemma os_Remove_file:
  "nodeAt fs p = Some (File b) \<Longrightarrow> os_Remove fs p = Some (AList.delete (Clean p) fs)"
  by (simp add: os_Remove_def nodeAt_def split: sum.splits)

subsection \<open>Paths of the sample inputs\<close>

lemma Join_dataDir_releases: "Join dataDir ''releases.json'' = ''data/releases.json''"
  by (simp add: Join_def dataDir_def Clean_def HasPrefix_def)

lemma Clean_releases: "Clean ''data/releases.json'' = ''data/releases.json''"
  by (simp add: Clean_def HasPrefix_def)

lemma Base_releases: "Base ''data/releases.json'' = ''releases.json''"
  by (simp add: Base_def stripSlashes_def)

lemma parentOf_releases: "parentOf ''data/releases.json'' = ''data''"
  by (simp add: parentOf_def)

lemma resolveDir_data:
  "(resolveDir fs ''data'' = None) = (map_of fs ''data'' = Some Dir)"
proof -
  have "parentOf ''data'' = []" by (simp add: parentOf_def)
  then show ?thesis
    by (simp add: resolveDir_None_iff [of "''data''"]) (simp add: resolveDir.simps)
qed

lemma sampleFS_releases: "nodeAt sampleFS ''data/releases.json'' = Some (File ''{}'')"
  by (simp add: nodeAt_eq Clean_releases parentOf_releases resolveDir_data) (simp add: sampleFS_def)

lemma emptyFS_releases: "nodeAt emptyFS ''data/releases.json'' = None"
  by (simp add: nodeAt_eq Clean_releases parentOf_releases resolveDir_data) (simp add: emptyFS_def)

lemma sampleLib_simps:
  "json_Unmarshal sampleLib ''{}'' = Some (JObject [])"
  "json_Unmarshal sampleLib ''[]'' = Some (JArray [])"
  "json_Unmarshal sampleLib ''{'' = None"
  "json_MarshalIndent sampleLib (JObject []) = Some ''{}''"
  "json_MarshalIndent sampleLib (JArray []) = Some ''[]''"
  by (simp_all add: sampleLib_def)

lemma sampleLib_staging:
  \<open>json_Unmarshal sampleLib ''{"staging": []}'' = Some (JObject [(''staging'', JArray [])])\<close>
  \<open>json_MarshalIndent sampleLib (JObject [(''staging'', JArray [])])
     = Some (''{'' @ [newline] @ ''  "staging": []'' @ [newline] @ ''}'')\<close>
  by (simp_all add: sampleLib_def)

lemma validate_releases_staging:
  "validateByPath ''data/releases.json'' (JObject [(''staging'', JArray [])]) = None"
  by (simp add: validateByPath_def Base_releases)

lemma postRequest_simps:
  "req_method (postRequest raw im) = ''POST''"
  "req_body (postRequest raw im) = Some raw"
  "getOrEmpty (req_header (postRequest raw im)) ''If-Match''
     = (case im of None \<Rightarrow> [] | Some t \<Rightarrow> t)"
  "maxBackupsOf (postRequest raw im) = 10"
  by (simp_all add: postRequest_def getOrEmpty_def maxBackupsOf_def defaultMaxBackups_def)

lemma handleDaysOff_post:
  "handleDaysOff lib now (postRequest raw im) fs
     = updateJSONFileWithBackup lib now (postRequest raw im) ''data/releases.json'' 10 fs"
  by (simp add: handleDaysOff_def handleDocument_def postRequest_simps Join_dataDir_releases)

lemma validate_releases_empty: "validateByPath ''data/releases.json'' (JObject []) = None"
  by (simp add: validateByPath_def Base_releases)

lemma validate_releases_array:
  "validateByPath ''data/releases.json'' (JArray [])
     = Some ''releases.json must be an object keyed by environment''"
  by (simp add: validateByPath_def Base_releases)

subsection \<open>The fingerprint\<close>

lemma length_hex: "length (hex bs) = 2 * length bs"
  by (induction bs) (simp_all add: hex_def)

lemma length_rounds: "length s = 8 \<Longrightarrow> length (rounds kws s) = 8"
proof (induction kws arbitrary: s)
  case Nil
  then show ?case by simp
next
  case (Cons kw kws)
  obtain k wi where kw: "kw = (k, wi)" by (cases kw)
  from Cons.prems obtain a b c d e f g h where s: "s = [a, b, c, d, e, f, g, h]"
    by (auto simp: length_Suc_conv eval_nat_numeral)
  show ?case unfolding kw s by (simp add: Let_def Cons.IH)
qed

lemma length_blocks: "length hs = 8 \<Longrightarrow> length (blocks hs p) = 8"
proof (induction hs p rule: blocks.induct)
  case (1 hs p)
  then show ?case by (subst blocks.simps) (simp add: block_def length_rounds)
qed

lemma length_concat_const:
  "(\<And>x. x \<in> set xss \<Longrightarrow> length x = n) \<Longrightarrow> length (concat xss) = n * length xss"
  by (induction xss) simp_all

lemma length_Sum256: "length (Sum256 m) = 32"
proof -
  have "length (blocks sha256_init (shaPad m)) = 8"
    by (rule length_blocks) (simp add: sha256_init_def)
  then show ?thesis
    unfolding Sum256_def
    by (subst length_concat_const [where n = 4]) (auto simp: beBytes_def)
qed

lemma length_computeETag: "length (computeETag (Some b)) = 18"
  by (simp add: computeETag_def length_hex length_Sum256)

lemma computeETag_neq: "length t \<noteq> 18 \<Longrightarrow> computeETag (Some b) \<noteq> t"
  using length_computeETag [of b] by auto

text \<open>
  C5, as the code has it. The fingerprint of content that is present is the quoted
  hexadecimal form of the first eight bytes of its SHA-256 hash, eighteen characters
  long; it is a function of the bytes alone. Only absent content (\<^verbatim>\<open>nil\<close>) gives the
  sentinel \<^verbatim>\<open>"0"\<close>, which is not the fingerprint of any content that is present, the
  empty byte sequence included.
\<close>

theorem computeETag_fingerprint:
  "computeETag None = [dquote, CHR ''0'', dquote]
   \<and> computeETag (Some b) = [dquote] @ hex (take 8 (Sum256 b)) @ [dquote]
   \<and> length (computeETag (Some b)) = 18
   \<and> computeETag (Some b) \<noteq> computeETag None"
proof -
  have "computeETag (Some b) \<noteq> computeETag None"
    by (rule computeETag_neq) (simp add: computeETag_def)
  then show ?thesis
    by (simp add: length_computeETag) (simp add: computeETag_def)
qed

theorem computeETag_fingerprint_witness:
  "computeETag (Some ''{}'') = [dquote] @ hex (take 8 (Sum256 ''{}'')) @ [dquote]
   \<and> computeETag (Some ''{}'') \<noteq> computeETag None"
  using computeETag_fingerprint [of "''{}''"] by blast

text \<open>
  C5 as stated fails on the empty byte sequence: its fingerprint is the truncated hash of
  the empty input, not the sentinel.
\<close>

theorem computeETag_empty_counterexample:
  "computeETag (Some []) = [dquote] @ ''e3b0c44298fc1c14'' @ [dquote]
   \<and> computeETag (Some []) \<noteq> [dquote, CHR ''0'', dquote]"
  by code_simp

subsection \<open>Validation\<close>

lemma validateByPath_object:
  "validateByPath path (JObject m) =
     (if Base path = ''environments.json'' then
        (if ''environments'' \<in> fst ` set m then None else Some ''missing environments array'')
      else if Base path = ''releases.json'' then None
      else if Base path = ''holidays.json'' then
        (if ''holidays'' \<in> fst ` set m then None else Some ''missing holidays array'')
      else None)"
  by (simp add: validateByPath_def map_of_eq_None_iff)

lemma validateByPath_other:
  "\<forall>m. v \<noteq> JObject m \<Longrightarrow>
   validateByPath path v =
     (if Base path = ''environments.json'' then Some ''environments.json must be an object''
      else if Base path = ''releases.json'' then
        Some ''releases.json must be an object keyed by environment''
      else if Base path = ''holidays.json'' then Some ''holidays.json must be an object''
      else None)"
  by (cases v) (simp_all add: validateByPath_def)

lemma fst_set_map_values: "fst ` set (map (\<lambda>(k, x). (k, f x)) m) = fst ` set m"
  by (induction m) auto

text \<open>
  C7. A value passes exactly when the table says so, by the base name of the document's
  file: an object with the key \<^verbatim>\<open>environments\<close>, an object, an object with the key
  \<^verbatim>\<open>holidays\<close>, and anything for every other name. The values stored under the keys
  are not looked at: replacing all of them changes nothing.
\<close>

theorem validateByPath_table:
  "(validateByPath path v = None) =
     (if Base path = ''environments.json'' then
        (\<exists>m. v = JObject m \<and> ''environments'' \<in> fst ` set m)
      else if Base path = ''releases.json'' then (\<exists>m. v = JObject m)
      else if Base path = ''holidays.json'' then
        (\<exists>m. v = JObject m \<and> ''holidays'' \<in> fst ` set m)
      else True)
   \<and> validateByPath path (JObject (map (\<lambda>(k, x). (k, f x)) m)) = validateByPath path (JObject m)"
proof (intro conjI)
  show "validateByPath path (JObject (map (\<lambda>(k, x). (k, f x)) m))
          = validateByPath path (JObject m)"
    by (simp only: validateByPath_object fst_set_map_values)
  show "(validateByPath path v = None) =
     (if Base path = ''environments.json'' then
        (\<exists>m. v = JObject m \<and> ''environments'' \<in> fst ` set m)
      else if Base path = ''releases.json'' then (\<exists>m. v = JObject m)
      else if Base path = ''holidays.json'' then
        (\<exists>m. v = JObject m \<and> ''holidays'' \<in> fst ` set m)
      else True)"
  proof (cases "\<exists>m. v = JObject m")
    case True
    then obtain m' where "v = JObject m'" by blast
    then show ?thesis by (simp add: validateByPath_object)
  next
    case False
    then have "\<forall>m. v \<noteq> JObject m" by blast
    from validateByPath_other [OF this] False show ?thesis by simp
  qed
qed

theorem validateByPath_table_witness:
  "validateByPath ''data/releases.json'' (JArray []) \<noteq> None
   \<and> validateByPath ''data/releases.json'' (JObject [(''staging'', JNull)]) = None
   \<and> validateByPath ''data/releases.json'' (JObject [(''staging'', JArray [])])
       = validateByPath ''data/releases.json'' (JObject [(''staging'', JNull)])"
  using validateByPath_table [of "''data/releases.json''" "JArray []"]
    validateByPath_table [of "''data/releases.json''" "JObject [(''staging'', JNull)]"
      "\<lambda>x. JArray []" "[(''staging'', JNull)]"]
  by (simp add: Base_releases)

subsection \<open>Writing a document: the checks before the write\<close>

text \<open>
  C6. A body that does not parse gives 400 with \<^verbatim>\<open>Invalid JSON\<close>; a body that parses
  but fails the shape check gives 400 with the validation message. Both answers are
  given whatever the headers and the file system are, so no precondition check and no
  backup comes first, and the file system (document and backups) is returned unchanged.
\<close>

theorem invalid_body_rejected:
  assumes "req_body r = Some raw"
  shows "(json_Unmarshal lib raw = None \<longrightarrow>
            updateJSONFileWithBackup lib now r filePath maxBackups fs
              = (http_Error None ''Invalid JSON'' 400, fs))
       \<and> (\<forall>v err. json_Unmarshal lib raw = Some v \<and> validateByPath filePath v = Some err \<longrightarrow>
            updateJSONFileWithBackup lib now r filePath maxBackups fs
              = (http_Error None (''Schema validation failed: '' @ err) 400, fs))"
  using assms by (simp add: updateJSONFileWithBackup_def)

theorem invalid_body_rejected_witness:
  "handleDaysOff sampleLib sampleTime (postRequest ''{'' (Some ''stale'')) sampleFS
     = (http_Error None ''Invalid JSON'' 400, sampleFS)
   \<and> handleDaysOff sampleLib sampleTime (postRequest ''[]'' None) sampleFS
     = (http_Error None
          (''Schema validation failed: '' @ ''releases.json must be an object keyed by environment'')
          400, sampleFS)"
  using invalid_body_rejected [of "postRequest ''{'' (Some ''stale'')" "''{''" sampleLib
      sampleTime "''data/releases.json''" 10 sampleFS]
    invalid_body_rejected [of "postRequest ''[]'' None" "''[]''" sampleLib
      sampleTime "''data/releases.json''" 10 sampleFS]
  by (simp add: handleDaysOff_post postRequest_simps sampleLib_simps validate_releases_array)

text \<open>
  C1, as the code has it. When the body has been read, parses, passes the shape check and
  is printed again, the target is an existing file and the \<^verbatim>\<open>If-Match\<close> header is not
  empty: a header that differs from the fingerprint of the bytes on disk gives 412 with
  that fingerprint as \<^verbatim>\<open>ETag\<close>, and the file system is returned unchanged.
\<close>

theorem stale_precondition_rejected:
  assumes "req_body r = Some raw"
      and "json_Unmarshal lib raw = Some v"
      and "validateByPath filePath v = None"
      and "json_MarshalIndent lib v = Some pretty"
      and "nodeAt fs filePath = Some (File cur)"
      and "getOrEmpty (req_header r) ''If-Match'' \<noteq> []"
      and "computeETag (Some cur) \<noteq> getOrEmpty (req_header r) ''If-Match''"
  shows "updateJSONFileWithBackup lib now r filePath maxBackups fs
           = (http_Error (Some (computeETag (Some cur))) ''Precondition Failed'' 412, fs)"
  using assms by (simp add: updateJSONFileWithBackup_def os_Stat_nodeAt os_ReadFile_file)

theorem stale_precondition_rejected_witness:
  "handleDaysOff sampleLib sampleTime (postRequest ''{}'' (Some ''stale'')) sampleFS
     = (http_Error (Some (computeETag (Some ''{}''))) ''Precondition Failed'' 412, sampleFS)"
  using stale_precondition_rejected [of "postRequest ''{}'' (Some ''stale'')" "''{}''" sampleLib
      "JObject []" "''data/releases.json''" "''{}''" sampleFS "''{}''" sampleTime 10]
  by (simp add: handleDaysOff_post postRequest_simps sampleLib_simps validate_releases_empty
        sampleFS_releases computeETag_neq)

text \<open>
  C1 as stated fails: the target exists, the header is not empty and differs from the
  fingerprint of the bytes on disk, but the body does not parse, and the answer is 400.
\<close>

theorem stale_precondition_counterexample:
  "nodeAt sampleFS (Join dataDir ''releases.json'') = Some (File ''{}'')
   \<and> getOrEmpty (req_header (postRequest ''{'' (Some ''stale''))) ''If-Match'' = ''stale''
   \<and> computeETag (Some ''{}'') \<noteq> ''stale''
   \<and> handleDaysOff sampleLib sampleTime (postRequest ''{'' (Some ''stale'')) sampleFS
       = (http_Error None ''Invalid JSON'' 400, sampleFS)
   \<and> status (http_Error None ''Invalid JSON'' 400) \<noteq> 412"
  by (simp add: handleDaysOff_post postRequest_simps sampleLib_simps Join_dataDir_releases
        sampleFS_releases computeETag_neq updateJSONFileWithBackup_def http_Error_def)

subsection \<open>Paths in the backup directory\<close>

lemma Split_no_sep: "c \<notin> set n \<Longrightarrow> Split n c = [n]"
  by (induction n) auto

lemma Split_not_Nil: "Split xs c \<noteq> []"
  by (induction xs) (auto split: list.splits)

lemma Split_append: "Split (xs @ c # ys) c = Split xs c @ Split ys c"
proof (induction xs)
  case Nil
  then show ?case by simp
next
  case (Cons x xs)
  then show ?case using Split_not_Nil [of xs c] by (cases "Split xs c") auto
qed

lemma Clean_backupDir: "Clean backupDir = ''data/backups''"
  by (simp add: backupDir_def Clean_def HasPrefix_def)

lemma Join_backupDir:
  assumes "validName n"
  shows "Join backupDir n = backupFile n"
proof -
  have "Split (''./data/backups'' @ CHR ''/'' # n) CHR ''/'' = Split ''./data/backups'' CHR ''/'' @ [n]"
    using assms by (simp only: Split_append) (simp add: validName_def Split_no_sep)
  then have "Split (''./data/backups'' @ CHR ''/'' # n) CHR ''/'' = [''.'', ''data'', ''backups'', n]"
    by simp
  then show ?thesis
    using assms
    by (simp add: Join_def backupDir_def Clean_def HasPrefix_def validName_def backupFile_def)
qed

lemma Clean_backupFile:
  assumes "validName n"
  shows "Clean (backupFile n) = backupFile n"
proof -
  have "Split (''data/backups'' @ CHR ''/'' # n) CHR ''/'' = Split ''data/backups'' CHR ''/'' @ [n]"
    using assms by (simp only: Split_append) (simp add: validName_def Split_no_sep)
  then have "Split (''data/backups/'' @ n) CHR ''/'' = [''data'', ''backups'', n]"
    by simp
  then show ?thesis
    using assms by (simp add: Clean_def HasPrefix_def validName_def backupFile_def)
qed

lemma backupFile_inj [simp]: "(backupFile n = backupFile n') = (n = n')"
  by (simp add: backupFile_def)

lemma backupFile_not_dir [simp]:
  "backupFile n \<noteq> ''data/backups''" "''data/backups'' \<noteq> backupFile n"
  by (simp_all add: backupFile_def)

lemma backupFile_eq: "''data/backups'' @ ''/'' @ n = backupFile n"
  by (simp add: backupFile_def)

lemma parentOf_backupFile:
  assumes "CHR ''/'' \<notin> set n"
  shows "parentOf (backupFile n) = ''data/backups''"
proof -
  have "rev (backupFile n) = rev n @ rev ''data/backups/''" by (simp add: backupFile_def)
  moreover have "dropWhile (\<lambda>c. c \<noteq> CHR ''/'') (rev n @ rev ''data/backups/'')
                   = dropWhile (\<lambda>c. c \<noteq> CHR ''/'') (rev ''data/backups/'')"
    using assms by (intro dropWhile_append2) auto
  ultimately show ?thesis by (simp add: parentOf_def)
qed

text \<open>
  The backup directory exists when both of its parts are directories; its entries are
  then resolved by the table alone.
\<close>

lemma backupDir_resolveDir:
  "(nodeAt fs backupDir = Some Dir) = (resolveDir fs ''data/backups'' = None)"
proof -
  have "parentOf ''data/backups'' = ''data''" by (simp add: parentOf_def)
  then show ?thesis
    by (simp add: nodeAt_eq Clean_backupDir resolveDir_None_iff [of "''data/backups''"])
qed

lemma backupDir_map_of:
  "nodeAt fs backupDir = Some Dir \<Longrightarrow> map_of fs ''data/backups'' = Some Dir"
  by (simp add: nodeAt_eq Clean_backupDir split: if_splits)

lemma backupDir_same:
  assumes "nodeAt fs backupDir = Some Dir"
      and "\<forall>q. (map_of fs' q = Some Dir) = (map_of fs q = Some Dir)"
  shows "nodeAt fs' backupDir = Some Dir"
  using assms(1) resolveDir_same [OF assms(2), of "''data/backups''"]
  by (simp add: backupDir_resolveDir)

lemma nodeAt_backupFile:
  assumes "validName n"
  shows "nodeAt fs (backupFile n)
           = (if nodeAt fs backupDir = Some Dir then map_of fs (backupFile n) else None)"
proof -
  have "CHR ''/'' \<notin> set n" using assms by (simp add: validName_def)
  from parentOf_backupFile [OF this] show ?thesis
    unfolding backupDir_resolveDir by (simp add: nodeAt_eq Clean_backupFile [OF assms])
qed

lemma os_ReadDir_backupDir:
  "os_ReadDir fs backupDir =
     (if nodeAt fs backupDir = Some Dir
      then Some (map (\<lambda>n. (n, map_of fs (backupFile n) = Some Dir))
                   (sort (remdups (childNames fs ''data/backups''))))
      else None)"
  by (auto simp: os_ReadDir_def nodeAt_def Clean_backupDir backupFile_def Let_def
        split: sum.splits)

lemma HasPrefix_append: "HasPrefix q p \<Longrightarrow> p @ drop (length p) q = q"
  by (metis HasPrefix_def append_take_drop_id)

lemma drop_prefix_image:
  "drop (length p) ` {q \<in> A. HasPrefix q p} = {n. p @ n \<in> A}"
proof (intro set_eqI iffI)
  fix n assume "n \<in> drop (length p) ` {q \<in> A. HasPrefix q p}"
  then obtain q where q: "q \<in> A" "HasPrefix q p" "n = drop (length p) q" by blast
  from HasPrefix_append [OF q(2)] q(1,3) show "n \<in> {n. p @ n \<in> A}" by simp
next
  fix n assume "n \<in> {n. p @ n \<in> A}"
  then have a: "p @ n \<in> A" by simp
  have "HasPrefix (p @ n) p" by (simp add: HasPrefix_def)
  with a have "p @ n \<in> {q \<in> A. HasPrefix q p}" by simp
  moreover have "drop (length p) (p @ n) = n" by simp
  ultimately show "n \<in> drop (length p) ` {q \<in> A. HasPrefix q p}" by (metis imageI)
qed

lemma set_childNames:
  "set (childNames fs k) = {n. validName n \<and> map_of fs (k @ ''/'' @ n) \<noteq> None}"
proof -
  have len: "Suc (length k) = length (k @ ''/'')" by simp
  have "set (childNames fs k)
          = {n \<in> drop (length (k @ ''/'')) ` {q \<in> fst ` set fs. HasPrefix q (k @ ''/'')}. validName n}"
    unfolding childNames_def len by (simp only: set_filter set_map)
  also have "\<dots> = {n. (k @ ''/'') @ n \<in> fst ` set fs \<and> validName n}"
    by (simp only: drop_prefix_image) simp
  also have "\<dots> = {n. validName n \<and> map_of fs (k @ ''/'' @ n) \<noteq> None}"
    by (auto simp only: map_of_eq_None_iff append_assoc)
  finally show ?thesis .
qed

lemma listBackups_None:
  "nodeAt fs backupDir \<noteq> Some Dir \<Longrightarrow> \<exists>e. listBackups pre fs = Inl e"
  by (simp add: listBackups_def os_ReadDir_backupDir)

lemma file_iff: "(m \<noteq> None \<and> m \<noteq> Some Dir) = (\<exists>b. m = Some (File b))"
  by (cases m) (auto intro: node.exhaust)

lemma listBackups_Some:
  assumes "nodeAt fs backupDir = Some Dir"
  shows "\<exists>bs. listBackups pre fs = Inr bs \<and> sorted bs \<and> distinct bs
            \<and> set bs = backupNames pre fs"
proof -
  let ?names = "sort (remdups (childNames fs ''data/backups''))"
  let ?bs = "filter (\<lambda>n. map_of fs (backupFile n) \<noteq> Some Dir \<and> HasPrefix n pre) ?names"
  have eq: "listBackups pre fs = Inr ?bs"
    using assms
    by (simp add: listBackups_def os_ReadDir_backupDir filter_map comp_def)
  have "n \<in> set ?bs \<longleftrightarrow> n \<in> backupNames pre fs" for n
    using file_iff [of "map_of fs (backupFile n)"]
    by (auto simp: set_childNames backupNames_def backupFile_eq simp del: append.simps)
  then have "set ?bs = backupNames pre fs" by blast
  moreover have "sorted ?bs" by (simp add: sorted_filter[where f = "\<lambda>x. x", simplified])
  moreover have "distinct ?bs" by simp
  ultimately show ?thesis using eq by blast
qed

lemma removeBackups_Done:
  assumes "distinct ds"
      and "nodeAt fs backupDir = Some Dir"
      and "\<forall>n \<in> set ds. validName n \<and> (\<exists>b. map_of fs (backupFile n) = Some (File b))"
  shows "\<exists>fs'. removeBackups ds fs = (Done, fs')
           \<and> map_of fs' = (\<lambda>q. if q \<in> backupFile ` set ds then None else map_of fs q)"
  using assms
proof (induction ds arbitrary: fs)
  case Nil
  then show ?case by simp
next
  case (Cons d ds)
  let ?p = "backupFile d"
  from Cons.prems obtain b where d: "validName d" "map_of fs ?p = Some (File b)" by auto
  have j: "Join backupDir d = ?p" by (rule Join_backupDir [OF d(1)])
  have cl: "Clean ?p = ?p" by (rule Clean_backupFile [OF d(1)])
  let ?fs1 = "AList.delete ?p fs"
  have "nodeAt fs ?p = Some (File b)"
    using Cons.prems(2) d(2) by (simp add: nodeAt_backupFile [OF d(1)])
  from os_Remove_file [OF this] have rm: "os_Remove fs (Join backupDir d) = Some ?fs1"
    by (simp add: j cl)
  have m1: "map_of ?fs1 = (map_of fs)(?p := None)" by (simp add: delete_conv')
  have "\<forall>q. (map_of ?fs1 q = Some Dir) = (map_of fs q = Some Dir)"
    using d(2) by (simp add: m1)
  from backupDir_same [OF Cons.prems(2) this]
  have d1: "nodeAt ?fs1 backupDir = Some Dir" .
  have "\<forall>n \<in> set ds. validName n \<and> (\<exists>b. map_of ?fs1 (backupFile n) = Some (File b))"
    using Cons.prems by (auto simp: m1)
  with Cons.IH [of ?fs1] Cons.prems(1) d1
  obtain fs' where fs': "removeBackups ds ?fs1 = (Done, fs')"
      "map_of fs' = (\<lambda>q. if q \<in> backupFile ` set ds then None else map_of ?fs1 q)"
    by auto
  have "removeBackups (d # ds) fs = (Done, fs')" using rm fs'(1) by simp
  moreover have "map_of fs' = (\<lambda>q. if q \<in> backupFile ` set (d # ds) then None else map_of fs q)"
    using fs'(2) m1 by auto
  ultimately show ?case by blast
qed

lemma backupNames_removed:
  assumes "map_of fs' = (\<lambda>q. if q \<in> backupFile ` D then None else map_of fs q)"
  shows "backupNames pre fs' = backupNames pre fs - D"
  using assms by (auto simp: backupNames_def)

lemma set_insertLeft: "set (insertLeft lt x ys) = insert x (set ys)"
  by (induction ys) auto

lemma length_insertLeft: "length (insertLeft lt x ys) = Suc (length ys)"
  by (induction ys) auto

lemma foldl_insertLeft:
  "set (foldl (\<lambda>acc x. insertLeft lt x acc) acc xs) = set acc \<union> set xs
   \<and> length (foldl (\<lambda>acc x. insertLeft lt x acc) acc xs) = length acc + length xs"
  by (induction xs arbitrary: acc) (simp_all add: set_insertLeft length_insertLeft)

lemma rearranged_same:
  assumes "rearranged ys xs"
  shows "set ys = set xs" and "length ys = length xs" and "distinct ys = distinct xs"
proof -
  from assms have e: "sort ys = sort xs" by (simp add: rearranged_def)
  from arg_cong [OF e, of set] show "set ys = set xs" by simp
  from arg_cong [OF e, of length] show "length ys = length xs" by simp
  from arg_cong [OF e, of distinct] show "distinct ys = distinct xs" by simp
qed

lemma set_sortSlice: "set (sortSlice lib lt xs) = set xs"
  by (simp add: sortSlice_def insertionSort_def foldl_insertLeft rearranged_same(1))

lemma length_sortSlice: "length (sortSlice lib lt xs) = length xs"
  by (simp add: sortSlice_def insertionSort_def foldl_insertLeft rearranged_same(2))

lemma distinct_sortSlice: "distinct xs \<Longrightarrow> distinct (sortSlice lib lt xs)"
  by (metis card_distinct distinct_card length_sortSlice set_sortSlice)

text \<open>
  A slice of more than twelve names comes out in the order the library gives it, one of
  twelve or fewer in the order of the insertion sort.
\<close>

lemma sortSlice_long:
  "12 < length xs \<Longrightarrow> rearranged (sort_Long lib lt xs) xs
   \<Longrightarrow> sortSlice lib lt xs = sort_Long lib lt xs"
  by (simp add: sortSlice_def)

lemma sortSlice_short: "length xs \<le> 12 \<Longrightarrow> sortSlice lib lt xs = insertionSort lt xs"
  by (simp add: sortSlice_def)

subsection \<open>Reading a document\<close>

text \<open>
  For a document name directly in the data directory, \<^verbatim>\<open>os.Stat\<close> reports that the
  file does not exist whenever the file is absent, unless \<^verbatim>\<open>data\<close> is a regular
  file.
\<close>

lemma Join_dataDir:
  assumes "validName n"
  shows "Join dataDir n = ''data/'' @ n" and "Clean (''data/'' @ n) = ''data/'' @ n"
proof -
  have "Split (''./data'' @ CHR ''/'' # n) CHR ''/'' = Split ''./data'' CHR ''/'' @ [n]"
    using assms by (simp only: Split_append) (simp add: validName_def Split_no_sep)
  then have "Split (''./data'' @ CHR ''/'' # n) CHR ''/'' = [''.'', ''data'', n]"
    by simp
  then show "Join dataDir n = ''data/'' @ n"
    using assms by (simp add: Join_def dataDir_def Clean_def HasPrefix_def validName_def)
  have "Split (''data'' @ CHR ''/'' # n) CHR ''/'' = Split ''data'' CHR ''/'' @ [n]"
    using assms by (simp only: Split_append) (simp add: validName_def Split_no_sep)
  then have "Split (''data/'' @ n) CHR ''/'' = [''data'', n]"
    by simp
  then show "Clean (''data/'' @ n) = ''data/'' @ n"
    using assms by (simp add: Clean_def HasPrefix_def validName_def)
qed

lemma parentOf_dataFile:
  assumes "CHR ''/'' \<notin> set n"
  shows "parentOf (''data/'' @ n) = ''data''"
proof -
  have "dropWhile (\<lambda>c. c \<noteq> CHR ''/'') (rev n @ rev ''data/'')
          = dropWhile (\<lambda>c. c \<noteq> CHR ''/'') (rev ''data/'')"
    using assms by (intro dropWhile_append2) auto
  then show ?thesis by (simp add: parentOf_def)
qed

lemma resolveDir_data_eq:
  "resolveDir fs ''data'' =
     (case map_of fs ''data'' of
        None \<Rightarrow> Some ENOENT | Some (File b) \<Rightarrow> Some ENOTDIR | Some Dir \<Rightarrow> None)"
proof -
  have "parentOf ''data'' = []" by (simp add: parentOf_def)
  then have "resolveDir fs (parentOf ''data'') = None" by (simp add: resolveDir.simps)
  then show ?thesis by (subst resolveDir.simps) simp
qed

lemma absent_is_not_exist:
  assumes v: "validName name"
      and a: "nodeAt fs (Join dataDir name) = None"
      and d: "\<forall>b. map_of fs ''data'' \<noteq> Some (File b)"
  shows "IsNotExist (os_Stat fs (Join dataDir name))"
proof -
  have p: "parentOf (''data/'' @ name) = ''data''"
    using v by (intro parentOf_dataFile) (simp add: validName_def)
  have r: "resolve fs (''data/'' @ name) =
             (case map_of fs ''data'' of
                None \<Rightarrow> Inl ENOENT
              | Some (File b) \<Rightarrow> Inl ENOTDIR
              | Some Dir \<Rightarrow>
                  (case map_of fs (''data/'' @ name) of None \<Rightarrow> Inl ENOENT | Some n \<Rightarrow> Inr n))"
    unfolding resolve_def p resolveDir_data_eq by (simp split: option.splits node.splits)
  show ?thesis
    using a d unfolding IsNotExist_def os_Stat_def nodeAt_def Join_dataDir [OF v] r
    by (auto split: option.splits node.splits)
qed

text \<open>
  C8, as the code has it. A GET for a document of which \<^verbatim>\<open>os.Stat\<close> reports that it
  does not exist (the file, or a directory on its path, is missing) is answered with
  status 200 and the body \<^verbatim>\<open>{}\<close>, and the file system is returned as it was; so it
  stays as it was after any number of such reads, and each of them gets the same answer.
\<close>

theorem absent_document_read:
  assumes "req_method r = ''GET''" and "IsNotExist (os_Stat fs (Join dataDir name))"
  shows "handleDocument name lib now r fs = (jsonOK None ''{}'', fs)
       \<and> ((\<lambda>s. snd (handleDocument name lib now r s)) ^^ n) fs = fs"
proof -
  have one: "handleDocument name lib now r fs = (jsonOK None ''{}'', fs)"
    using assms by (simp add: handleDocument_def serveJSONFile_def)
  then have "((\<lambda>s. snd (handleDocument name lib now r s)) ^^ n) fs = fs"
    by (induction n) simp_all
  with one show ?thesis by simp
qed

theorem absent_document_read_witness:
  "IsNotExist (os_Stat emptyFS (Join dataDir ''releases.json''))
   \<and> IsNotExist (os_Stat [] (Join dataDir ''releases.json''))
   \<and> handleDaysOff sampleLib sampleTime getRequest emptyFS = (jsonOK None ''{}'', emptyFS)
   \<and> handleDaysOff sampleLib sampleTime getRequest [] = (jsonOK None ''{}'', [])
   \<and> ((\<lambda>s. snd (handleDaysOff sampleLib sampleTime getRequest s)) ^^ 3) emptyFS = emptyFS"
proof -
  have a: "IsNotExist (os_Stat emptyFS (Join dataDir ''releases.json''))"
    by code_simp
  have b: "IsNotExist (os_Stat [] (Join dataDir ''releases.json''))"
    by code_simp
  have g: "req_method getRequest = ''GET''"
    by (simp add: getRequest_def)
  from absent_document_read [OF g a, of sampleLib sampleTime 3]
    absent_document_read [OF g b, of sampleLib sampleTime 0] a b
  show ?thesis by (simp add: handleDaysOff_def)
qed

text \<open>
  C8 as stated fails: when \<^verbatim>\<open>data\<close> is a regular file, the document does not exist,
  but \<^verbatim>\<open>os.Stat\<close> reports that a part of the path is not a directory, which is not
  the error \<^verbatim>\<open>os.IsNotExist\<close> tests for; the handler goes on to read the file and
  answers 500.
\<close>

theorem absent_document_error_counterexample:
  "nodeAt dataFileFS (Join dataDir ''releases.json'') = None
   \<and> os_Stat dataFileFS (Join dataDir ''releases.json'') = Some ENOTDIR
   \<and> handleDaysOff sampleLib sampleTime getRequest dataFileFS
       = (http_Error None ''Error reading file'' 500, dataFileFS)
   \<and> status (http_Error None ''Error reading file'' 500) \<noteq> 200"
  by code_simp

subsection \<open>Rotation\<close>

text \<open>
  What a rotation leaves: the listing afterwards holds the first \<open>maxBackups\<close> names
  of the sorted listing, whatever order the sort gives to names that compare equal.
\<close>

lemma cleanupOldBackups_keeps_first:
  assumes k: "0 \<le> maxBackups"
      and dir: "nodeAt fs backupDir = Some Dir"
      and l0: "listBackups (TrimSuffix baseFilename ''.json'') fs = Inr bs0"
  shows "\<exists>fs' bs. cleanupOldBackups lib baseFilename maxBackups fs = (Done, fs')
           \<and> nodeAt fs' backupDir = Some Dir
           \<and> listBackups (TrimSuffix baseFilename ''.json'') fs' = Inr bs
           \<and> set bs = set (take (nat maxBackups) (sortSlice lib backupLess bs0))
           \<and> int (length bs) \<le> maxBackups
           \<and> (int (length bs0) \<le> maxBackups \<longrightarrow> fs' = fs)
           \<and> (\<forall>q. (map_of fs' q = Some Dir) = (map_of fs q = Some Dir))
           \<and> (\<forall>q. (\<forall>n. q \<noteq> backupFile n) \<longrightarrow> map_of fs' q = map_of fs q)"
proof -
  let ?pre = "TrimSuffix baseFilename ''.json''"
  let ?srt = "sortSlice lib backupLess bs0"
  from listBackups_Some [OF dir, of ?pre] l0
  have bs0: "sorted bs0" "distinct bs0" "set bs0 = backupNames ?pre fs" by auto
  show ?thesis
  proof (cases "int (length bs0) \<le> maxBackups")
    case True
    then have "cleanupOldBackups lib baseFilename maxBackups fs = (Done, fs)"
      using l0 by (simp add: cleanupOldBackups_def)
    moreover have "take (nat maxBackups) ?srt = ?srt"
      using True by (simp add: length_sortSlice)
    ultimately show ?thesis using True l0 dir by (auto simp: set_sortSlice)
  next
    case False
    let ?ds = "drop (nat maxBackups) ?srt"
    have dist: "distinct ?srt" using bs0(2) by (rule distinct_sortSlice)
    have sub: "set ?ds \<subseteq> backupNames ?pre fs"
      using set_drop_subset [of "nat maxBackups" ?srt] bs0(3) by (simp add: set_sortSlice)
    have files: "\<forall>n \<in> set ?ds. validName n \<and> (\<exists>b. map_of fs (backupFile n) = Some (File b))"
      using sub by (auto simp: backupNames_def)
    from removeBackups_Done [OF distinct_drop [OF dist] dir this]
    obtain fs' where fs': "removeBackups ?ds fs = (Done, fs')"
        "map_of fs' = (\<lambda>q. if q \<in> backupFile ` set ?ds then None else map_of fs q)"
      by blast
    have cl: "cleanupOldBackups lib baseFilename maxBackups fs = (Done, fs')"
      using False k l0 fs'(1) by (simp add: cleanupOldBackups_def)
    have same: "\<forall>q. (map_of fs' q = Some Dir) = (map_of fs q = Some Dir)"
      using files by (auto simp: fs'(2))
    have frame: "\<forall>q. (\<forall>n. q \<noteq> backupFile n) \<longrightarrow> map_of fs' q = map_of fs q"
      using fs'(2) by auto
    from backupDir_same [OF dir same] have d': "nodeAt fs' backupDir = Some Dir" .
    from listBackups_Some [OF d', of ?pre]
    obtain bs where bs: "listBackups ?pre fs' = Inr bs" "distinct bs"
        "set bs = backupNames ?pre fs'" by blast
    have "set bs = set ?srt - set ?ds"
      using bs(3) backupNames_removed [OF fs'(2), of ?pre] bs0(3) by (simp add: set_sortSlice)
    also have "\<dots> = set (take (nat maxBackups) ?srt)"
    proof -
      have "set (take (nat maxBackups) ?srt) \<union> set ?ds = set ?srt"
        by (metis append_take_drop_id set_append)
      moreover have "set (take (nat maxBackups) ?srt) \<inter> set ?ds = {}"
        using dist by (metis append_take_drop_id distinct_append)
      ultimately show ?thesis by blast
    qed
    finally have sb: "set bs = set (take (nat maxBackups) ?srt)" .
    have "length bs = card (set bs)" using bs(2) by (simp add: distinct_card)
    also have "\<dots> = length (take (nat maxBackups) ?srt)"
      unfolding sb using dist by (simp add: distinct_card)
    finally have "int (length bs) \<le> maxBackups" using k by simp
    with cl bs(1) sb d' False same frame show ?thesis
      by blast
  qed
qed

text \<open>
  The insertion sort puts a list without repetitions in order when the comparison is a
  strict order on its elements; the comparison of the rotation is one on names of at least
  three pieces with different timestamps. On a longer list the order of the result is the
  library's to give.
\<close>

lemma backupLess_stamp:
  "3 \<le> length (Split a CHR ''.'') \<Longrightarrow> 3 \<le> length (Split b CHR ''.'')
   \<Longrightarrow> backupLess a b = (stamp b < stamp a)"
  by (simp add: backupLess_def stamp_def Let_def)

lemma sorted_insertLeft:
  assumes so: "strictOn A lt"
      and "x \<in> A" and "set ys \<subseteq> A" and "x \<notin> set ys"
      and "sorted_wrt (\<lambda>a b. lt b a) ys"
  shows "sorted_wrt (\<lambda>a b. lt b a) (insertLeft lt x ys)"
  using assms(2-)
proof (induction ys)
  case Nil
  then show ?case by simp
next
  case (Cons y ys)
  show ?case
  proof (cases "lt x y")
    case True
    have "sorted_wrt (\<lambda>a b. lt b a) (insertLeft lt x ys)"
      using Cons by simp
    moreover have "\<forall>b \<in> set (insertLeft lt x ys). lt b y"
      using True Cons.prems(4) by (auto simp: set_insertLeft)
    ultimately show ?thesis using True by simp
  next
    case False
    have yx: "lt y x"
      using so False Cons.prems(1,2,3) unfolding strictOn_def by (metis list.set_intros(1) subsetD)
    have "lt b x" if "b \<in> set ys" for b
    proof -
      have "lt b y" using that Cons.prems(4) by simp
      moreover have "b \<in> A" "y \<in> A" using that Cons.prems(2) by auto
      ultimately show ?thesis
        using so yx Cons.prems(1) unfolding strictOn_def by blast
    qed
    with yx False Cons.prems(4) show ?thesis by auto
  qed
qed

lemma distinct_insertLeft:
  "x \<notin> set ys \<Longrightarrow> distinct ys \<Longrightarrow> distinct (insertLeft lt x ys)"
  by (induction ys) (auto simp: set_insertLeft)

lemma sorted_foldl_insertLeft:
  assumes so: "strictOn A lt"
      and "set acc \<union> set xs \<subseteq> A" and "distinct (acc @ xs)"
      and "sorted_wrt (\<lambda>a b. lt b a) acc"
  shows "sorted_wrt (\<lambda>a b. lt b a) (foldl (\<lambda>acc x. insertLeft lt x acc) acc xs)"
  using assms(2-)
proof (induction xs arbitrary: acc)
  case Nil
  then show ?case by simp
next
  case (Cons x xs)
  have "x \<in> A" "set acc \<subseteq> A" "x \<notin> set acc" using Cons.prems(1,2) by auto
  from sorted_insertLeft [OF so this Cons.prems(3)]
  have s: "sorted_wrt (\<lambda>a b. lt b a) (insertLeft lt x acc)" .
  have d: "distinct (insertLeft lt x acc @ xs)"
    using Cons.prems(2) by (simp add: distinct_insertLeft set_insertLeft)
  have sub: "set (insertLeft lt x acc) \<union> set xs \<subseteq> A"
    using Cons.prems(1) by (simp add: set_insertLeft)
  from Cons.IH [OF sub d s] show ?case by simp
qed

lemma sorted_insertionSort:
  assumes "strictOn (set xs) lt" and "distinct xs"
  shows "sorted_wrt lt (insertionSort lt xs)"
proof -
  have "sorted_wrt (\<lambda>a b. lt b a) (foldl (\<lambda>acc x. insertLeft lt x acc) [] xs)"
    by (rule sorted_foldl_insertLeft [OF assms(1)]) (simp_all add: assms(2))
  then show ?thesis by (simp add: insertionSort_def sorted_wrt_rev)
qed

lemma sorted_sortSlice:
  assumes "strictOn (set xs) lt" and "distinct xs"
      and "12 < length xs \<longrightarrow> sorted_wrt lt (sort_Long lib lt xs)"
  shows "sorted_wrt lt (sortSlice lib lt xs)"
  using sorted_insertionSort [OF assms(1,2)] assms(3) by (simp add: sortSlice_def)

lemma strictOn_backupLess:
  assumes "\<forall>n\<in>A. 3 \<le> length (Split n CHR ''.'')" and "inj_on stamp A"
  shows "strictOn A backupLess"
  unfolding strictOn_def
proof (intro conjI ballI impI)
  fix a b c assume "a \<in> A" "b \<in> A" "c \<in> A" "backupLess a b" "backupLess b c"
  then show "backupLess a c" using assms(1) by (auto simp: backupLess_stamp)
next
  fix a b assume "a \<in> A" "b \<in> A" "a \<noteq> b"
  then have "stamp a \<noteq> stamp b" using assms(2) by (auto dest: inj_onD)
  then show "backupLess a b \<or> backupLess b a"
    using assms(1) \<open>a \<in> A\<close> \<open>b \<in> A\<close> by (auto simp: backupLess_stamp)
qed

text \<open>
  When the listing holds only names of at least three pieces with different timestamps
  (backups without sidecars), and the library sorts a listing of more than twelve, the
  rotation leaves the names with the largest timestamps, \<open>maxBackups\<close> of them or
  all when there are fewer.
\<close>

lemma rotation_keeps_newest:
  assumes k: "0 \<le> maxBackups"
      and dir: "nodeAt fs backupDir = Some Dir"
      and l0: "listBackups (TrimSuffix baseFilename ''.json'') fs = Inr bs0"
      and parts: "\<forall>n\<in>set bs0. 3 \<le> length (Split n CHR ''.'')"
      and inj: "inj_on stamp (set bs0)"
      and long: "12 < length bs0 \<longrightarrow> sorted_wrt backupLess (sort_Long lib backupLess bs0)"
  shows "\<exists>fs' bs. cleanupOldBackups lib baseFilename maxBackups fs = (Done, fs')
           \<and> listBackups (TrimSuffix baseFilename ''.json'') fs' = Inr bs
           \<and> set bs \<subseteq> set bs0
           \<and> length bs = min (nat maxBackups) (length bs0)
           \<and> (\<forall>a\<in>set bs. \<forall>b\<in>set bs0 - set bs. stamp b < stamp a)"
proof -
  let ?pre = "TrimSuffix baseFilename ''.json''"
  let ?srt = "sortSlice lib backupLess bs0"
  let ?k = "nat maxBackups"
  from listBackups_Some [OF dir, of ?pre] l0 have dist0: "distinct bs0" by auto
  from cleanupOldBackups_keeps_first [OF k dir l0, of lib]
  obtain fs' bs where r: "cleanupOldBackups lib baseFilename maxBackups fs = (Done, fs')"
      "nodeAt fs' backupDir = Some Dir" "listBackups ?pre fs' = Inr bs"
      "set bs = set (take ?k ?srt)"
    by blast
  from listBackups_Some [OF r(2), of ?pre] r(3) have dist: "distinct bs" by auto
  have dsrt: "distinct ?srt" using dist0 by (rule distinct_sortSlice)
  have srt: "sorted_wrt backupLess ?srt"
    by (rule sorted_sortSlice [OF strictOn_backupLess [OF parts inj] dist0 long])
  have split: "?srt = take ?k ?srt @ drop ?k ?srt" by simp
  have rest: "set bs0 - set bs = set (drop ?k ?srt)"
  proof -
    have "set (take ?k ?srt) \<union> set (drop ?k ?srt) = set bs0"
      by (metis append_take_drop_id set_append set_sortSlice)
    moreover have "set (take ?k ?srt) \<inter> set (drop ?k ?srt) = {}"
      using dsrt by (metis append_take_drop_id distinct_append)
    ultimately show ?thesis using r(4) by blast
  qed
  have ord: "\<forall>a\<in>set (take ?k ?srt). \<forall>b\<in>set (drop ?k ?srt). backupLess a b"
    using srt by (subst (asm) split) (simp only: sorted_wrt_append, blast)
  have "stamp b < stamp a" if "a \<in> set bs" "b \<in> set bs0 - set bs" for a b
  proof -
    from that r(4) rest ord have "backupLess a b" by blast
    moreover have "a \<in> set bs0" using that(1) r(4) by (metis in_set_takeD set_sortSlice)
    moreover have "b \<in> set bs0" using that(2) by blast
    ultimately show ?thesis using parts by (simp add: backupLess_stamp)
  qed
  moreover have "set bs \<subseteq> set bs0"
    using r(4) by (metis set_sortSlice set_take_subset)
  moreover have "length bs = min ?k (length bs0)"
  proof -
    have "length bs = card (set bs)" using dist by (simp add: distinct_card)
    also have "\<dots> = length (take ?k ?srt)"
      unfolding r(4) using dsrt by (simp add: distinct_card)
    finally show ?thesis by (simp add: length_sortSlice min.commute)
  qed
  ultimately show ?thesis using r(1,3) by blast
qed

text \<open>
  C4. When the backup directory exists and the limit is not negative (the handlers pass a
  positive one), the rotation ends without error, the listing of the prefix afterwards
  has at most \<open>maxBackups\<close> names, and nothing is changed when the listing was
  within the limit already. This holds for every file system, so after every write.
\<close>

theorem rotation_bound:
  assumes "0 \<le> maxBackups" and "nodeAt fs backupDir = Some Dir"
  shows "\<exists>fs' bs. cleanupOldBackups lib baseFilename maxBackups fs = (Done, fs')
           \<and> listBackups (TrimSuffix baseFilename ''.json'') fs' = Inr bs
           \<and> int (length bs) \<le> maxBackups
           \<and> (\<forall>bs0. listBackups (TrimSuffix baseFilename ''.json'') fs = Inr bs0
                  \<and> int (length bs0) \<le> maxBackups \<longrightarrow> fs' = fs)"
proof -
  from listBackups_Some [OF assms(2), of "TrimSuffix baseFilename ''.json''"]
  obtain bs0 where "listBackups (TrimSuffix baseFilename ''.json'') fs = Inr bs0" by blast
  from cleanupOldBackups_keeps_first [OF assms this, of lib] this show ?thesis by auto
qed

theorem rotation_bound_witness:
  "(0::int) \<le> 2 \<and> nodeAt rotationFS backupDir = Some Dir
   \<and> (\<exists>fs' bs. cleanupOldBackups sampleLib ''environments.json'' 2 rotationFS = (Done, fs')
          \<and> listBackups ''environments'' fs' = Inr bs \<and> int (length bs) \<le> 2)"
proof -
  have d: "nodeAt rotationFS backupDir = Some Dir" by code_simp
  have t: "TrimSuffix ''environments.json'' ''.json'' = ''environments''" by code_simp
  from rotation_bound [of 2 rotationFS sampleLib "''environments.json''"] d t show ?thesis
    by auto
qed

text \<open>
  C2 fails on the code: the listing of a prefix also returns the \<^verbatim>\<open>.sha256\<close> sidecars,
  which count against the limit. With three backups, their three sidecars and the limit
  2, the rotation leaves the newest backup and its sidecar: one backup, not the two
  newest.
\<close>

theorem rotation_counts_sidecars:
  "listBackups ''environments'' rotationFS
     = Inr [''environments.20250101-000000.json'', ''environments.20250101-000000.json.sha256'',
            ''environments.20250102-000000.json'', ''environments.20250102-000000.json.sha256'',
            ''environments.20250103-000000.json'', ''environments.20250103-000000.json.sha256'']
   \<and> cleanupOldBackups sampleLib ''environments.json'' 2 rotationFS
     = (Done, [(''data'', Dir), (''data/backups'', Dir),
               (''data/backups/environments.20250103-000000.json'', File ''{}''),
               (''data/backups/environments.20250103-000000.json.sha256'',
                  File (''44136fa355b3678a1146ad16f7e8649e94fb4fc21fe77e8310c060f61caaff8a'' @ [newline]))])
   \<and> nodeAt (snd (cleanupOldBackups sampleLib ''environments.json'' 2 rotationFS))
         ''data/backups/environments.20250102-000000.json'' = None"
  by code_simp

subsection \<open>Writing a document: the backup\<close>

text \<open>
  The backup of a document lies directly in the backup directory: its path is
  \<open>backupFile n\<close> for an entry name \<open>n\<close>, which is the base name without
  \<^verbatim>\<open>.json\<close>, a dot, the timestamp and \<^verbatim>\<open>.json\<close>.
\<close>

lemma Base_no_slash: "Base p = ''/'' \<or> (Base p \<noteq> [] \<and> CHR ''/'' \<notin> set (Base p))"
proof -
  have "CHR ''/'' \<notin> set (rev (takeWhile (\<lambda>c. c \<noteq> CHR ''/'') xs))" for xs :: string
    by (auto dest: set_takeWhileD)
  then show ?thesis
    by (auto simp: Base_def Let_def)
qed

lemma TrimSuffix_subset: "set (TrimSuffix s suf) \<subseteq> set s"
  by (auto simp: TrimSuffix_def dest: in_set_takeD)

lemma digit_no_slash:
  fixes d :: nat
  assumes "d < 10"
  shows "char_of (48 + d) \<noteq> CHR ''/''"
proof
  assume "char_of (48 + d) = CHR ''/''"
  then have "(of_char (char_of (48 + d)) :: nat) = of_char CHR ''/''" by simp
  then have "(48 + d) mod 256 = (47::nat)" by simp
  with assms show False by simp
qed

lemma decimal_no_slash: "CHR ''/'' \<notin> set (decimal n)"
proof (induction n rule: decimal.induct)
  case (1 n)
  show ?case
  proof (cases "n < 10")
    case True
    from digit_no_slash [OF this] True show ?thesis
      by (subst decimal.simps) (auto simp del: decimal.simps)
  next
    case False
    have "n mod 10 < 10" by simp
    from digit_no_slash [OF this] False 1 show ?thesis
      by (subst decimal.simps) (auto simp del: decimal.simps)
  qed
qed

lemma Format_no_slash: "CHR ''/'' \<notin> set (Format t)"
  by (simp add: Format_def zeroPad_def decimal_no_slash del: decimal.simps)

lemma validName_long: "CHR ''/'' \<notin> set n \<Longrightarrow> 3 \<le> length n \<Longrightarrow> validName n"
  by (auto simp: validName_def)

lemma Join_backupDir_slash:
  assumes "validName n"
  shows "Join backupDir (CHR ''/'' # n) = backupFile n"
proof -
  have "Split (''./data/backups'' @ CHR ''/'' # CHR ''/'' # n) CHR ''/''
          = Split ''./data/backups'' CHR ''/'' @ Split (CHR ''/'' # n) CHR ''/''"
    by (simp only: Split_append)
  also have "\<dots> = [''.'', ''data'', ''backups'', [], n]"
    using assms by (simp add: validName_def Split_no_sep)
  finally show ?thesis
    using assms
    by (simp add: Join_def backupDir_def Clean_def HasPrefix_def validName_def backupFile_def)
qed

lemma backupTarget_backupFile:
  "\<exists>n. validName n \<and> backupTarget now filePath = backupFile n
       \<and> (Base filePath \<noteq> ''/'' \<longrightarrow>
            n = TrimSuffix (Base filePath) ''.json'' @ ''.'' @ Format now @ ''.json'')"
proof (cases "Base filePath = ''/''")
  case True
  let ?n = "''.'' @ Format now @ ''.json''"
  have v: "validName ?n"
    by (rule validName_long) (simp_all add: Format_no_slash)
  have "TrimSuffix ''/'' ''.json'' = ''/''" by (simp add: TrimSuffix_def HasSuffix_def)
  then have "backupTarget now filePath = Join backupDir (CHR ''/'' # ?n)"
    using True by (simp add: backupTarget_def)
  with Join_backupDir_slash [OF v] v True show ?thesis by metis
next
  case False
  let ?n = "TrimSuffix (Base filePath) ''.json'' @ ''.'' @ Format now @ ''.json''"
  from False Base_no_slash [of filePath] have "CHR ''/'' \<notin> set (Base filePath)" by blast
  with TrimSuffix_subset [of "Base filePath" "''.json''"]
  have "CHR ''/'' \<notin> set (TrimSuffix (Base filePath) ''.json'')" by blast
  then have v: "validName ?n"
    by (intro validName_long) (simp_all add: Format_no_slash)
  have "backupTarget now filePath = Join backupDir ?n" by (simp add: backupTarget_def)
  with Join_backupDir [OF v] v show ?thesis by metis
qed

lemma validName_sidecar: "validName n \<Longrightarrow> validName (n @ ''.sha256'')"
  by (auto simp: validName_def)

lemma backupFile_append: "backupFile n @ s = backupFile (n @ s)"
  by (simp add: backupFile_def)

lemma os_WriteFile_backupFile_eq:
  assumes "validName n"
  shows "os_WriteFile fs (backupFile n) b =
           (if nodeAt fs backupDir = Some Dir \<and> map_of fs (backupFile n) \<noteq> Some Dir
            then Some (AList.update (backupFile n) (File b) fs) else None)"
proof -
  have "CHR ''/'' \<notin> set n" using assms by (simp add: validName_def)
  from parentOf_backupFile [OF this] show ?thesis
    by (simp add: os_WriteFile_eq Clean_backupFile [OF assms] backupDir_resolveDir)
qed

lemma os_WriteFile_backupFile:
  assumes "validName n" and "nodeAt fs backupDir = Some Dir"
      and "map_of fs (backupFile n) \<noteq> Some Dir"
  shows "os_WriteFile fs (backupFile n) b = Some (AList.update (backupFile n) (File b) fs)"
  using assms(2,3) by (simp add: os_WriteFile_backupFile_eq [OF assms(1)])

text \<open>
  The snapshot of an existing file is written exactly when the backup directory exists
  and the name of the backup is not taken by a directory; otherwise nothing changes.
\<close>

lemma snapshotFile_cases:
  assumes f: "nodeAt fs filePath = Some (File orig)"
      and t: "backupTarget now filePath = backupFile n" and v: "validName n"
  shows "snapshotFile now filePath fs =
           (if nodeAt fs backupDir = Some Dir \<and> map_of fs (backupFile n) \<noteq> Some Dir
            then (writeChecksum (backupFile n) (AList.update (backupFile n) (File orig) fs), True)
            else (fs, False))"
  by (simp add: snapshotFile_def os_ReadFile_file [OF f] t os_WriteFile_backupFile_eq [OF v])

lemma snapshotFile_fails:
  assumes f: "nodeAt fs filePath = Some (File orig)"
      and nb: "nodeAt fs backupDir \<noteq> Some Dir \<or> nodeAt fs (backupTarget now filePath) = Some Dir"
  shows "snapshotFile now filePath fs = (fs, False)"
proof -
  from backupTarget_backupFile [of now filePath]
  obtain n where n: "validName n" "backupTarget now filePath = backupFile n" by blast
  from nb have "\<not> (nodeAt fs backupDir = Some Dir \<and> map_of fs (backupFile n) \<noteq> Some Dir)"
    by (auto simp: n(2) nodeAt_backupFile [OF n(1)] split: if_splits)
  then show ?thesis
    by (simp add: snapshotFile_cases [OF f n(2) n(1)])
qed

lemma snapshotFile_written:
  assumes f: "nodeAt fs filePath = Some (File orig)"
      and d: "nodeAt fs backupDir = Some Dir"
      and t: "backupTarget now filePath = backupFile n" and v: "validName n"
      and nd: "map_of fs (backupFile n) \<noteq> Some Dir"
  shows "\<exists>fs2. snapshotFile now filePath fs = (fs2, True)
          \<and> nodeAt fs2 backupDir = Some Dir
          \<and> map_of fs2 (backupFile n) = Some (File orig)
          \<and> map_of fs2 (backupFile (n @ ''.sha256'')) =
               (if map_of fs (backupFile (n @ ''.sha256'')) = Some Dir then Some Dir
                else Some (File (hex (Sum256 orig) @ [newline])))
          \<and> (\<forall>q. q \<noteq> backupFile n \<and> q \<noteq> backupFile (n @ ''.sha256'')
                 \<longrightarrow> map_of fs2 q = map_of fs q)
          \<and> (\<forall>q. (map_of fs2 q = Some Dir) = (map_of fs q = Some Dir))"
proof -
  let ?k = "backupFile n" and ?s = "backupFile (n @ ''.sha256'')"
  let ?fs1 = "AList.update ?k (File orig) fs"
  have w1: "os_WriteFile fs ?k orig = Some ?fs1"
    by (rule os_WriteFile_backupFile [OF v d nd])
  have m1: "map_of ?fs1 = (map_of fs)(?k \<mapsto> File orig)" by (simp add: update_conv')
  have s1: "\<forall>q. (map_of ?fs1 q = Some Dir) = (map_of fs q = Some Dir)"
    using os_WriteFile_dirs [OF w1] by blast
  from backupDir_same [OF d s1] have d1: "nodeAt ?fs1 backupDir = Some Dir" .
  have rf1: "os_ReadFile ?fs1 ?k = (Some orig, True)"
    by (rule os_ReadFile_file [OF os_WriteFile_nodeAt [OF w1]])
  have v2: "validName (n @ ''.sha256'')" by (rule validName_sidecar [OF v])
  have ne: "?s \<noteq> ?k" by simp
  have snap: "snapshotFile now filePath fs = (writeChecksum ?k ?fs1, True)"
    using d nd by (simp add: snapshotFile_cases [OF f t v])
  show ?thesis
  proof (cases "map_of fs ?s = Some Dir")
    case True
    then have "os_WriteFile ?fs1 ?s (hex (Sum256 orig) @ [newline]) = None"
      using ne by (simp add: os_WriteFile_backupFile_eq [OF v2] m1)
    then have "writeChecksum ?k ?fs1 = ?fs1"
      by (simp add: writeChecksum_def rf1 backupFile_append)
    with snap True m1 d1 s1 ne show ?thesis by auto
  next
    case False
    let ?fs2 = "AList.update ?s (File (hex (Sum256 orig) @ [newline])) ?fs1"
    from False have nd1: "map_of ?fs1 ?s \<noteq> Some Dir" using ne by (simp add: m1)
    from os_WriteFile_backupFile [OF v2 d1 nd1]
    have w2: "os_WriteFile ?fs1 ?s (hex (Sum256 orig) @ [newline]) = Some ?fs2" .
    then have wc: "writeChecksum ?k ?fs1 = ?fs2"
      by (simp add: writeChecksum_def rf1 backupFile_append)
    have s2: "\<forall>q. (map_of ?fs2 q = Some Dir) = (map_of fs q = Some Dir)"
      using os_WriteFile_dirs [OF w2] s1 by blast
    from backupDir_same [OF d s2] have d2: "nodeAt ?fs2 backupDir = Some Dir" .
    have m2: "map_of ?fs2 = (map_of fs)(?k \<mapsto> File orig, ?s \<mapsto> File (hex (Sum256 orig) @ [newline]))"
      by (simp add: update_conv')
    have "map_of ?fs2 ?k = Some (File orig)"
      using ne by (simp add: m2)
    moreover have "map_of ?fs2 ?s = Some (File (hex (Sum256 orig) @ [newline]))"
      by (simp add: m2)
    moreover have "\<forall>q. q \<noteq> ?k \<and> q \<noteq> ?s \<longrightarrow> map_of ?fs2 q = map_of fs q"
      by (simp add: m2)
    ultimately show ?thesis
      using snap wc d2 s2 False by (simp del: map_of_eq_Some_iff)
  qed
qed

lemma update_success_shape:
  assumes "updateJSONFileWithBackup lib now r filePath maxBackups fs = (resp, fs')"
      and "status resp = 200"
  shows "\<exists>raw v pretty. req_body r = Some raw \<and> json_Unmarshal lib raw = Some v
           \<and> validateByPath filePath v = None \<and> json_MarshalIndent lib v = Some pretty
           \<and> os_WriteFile
               (if os_Stat fs filePath = None
                then snd (backupAndRotate lib now filePath maxBackups fs) else fs)
               filePath pretty = Some fs'"
  using assms
  by (auto simp: updateJSONFileWithBackup_def writeDocument_def http_Error_def aborted_def
        Let_def split: option.splits if_splits prod.splits outcome.splits)

lemma update_absent_frame:
  assumes "updateJSONFileWithBackup lib now r filePath maxBackups fs = (resp, fs')"
      and "nodeAt fs filePath = None"
  shows "\<forall>q. q \<noteq> Clean filePath \<longrightarrow> map_of fs' q = map_of fs q"
  using assms
  by (auto simp: updateJSONFileWithBackup_def writeDocument_def os_Stat_None
        dest!: os_WriteFile_map_of split: option.splits if_splits)

lemma cleanupOldBackups_frame:
  assumes k: "0 \<le> maxBackups"
      and dir: "nodeAt fs backupDir = Some Dir"
  shows "\<exists>fs'. cleanupOldBackups lib baseFilename maxBackups fs = (Done, fs')
           \<and> (\<forall>q. (\<forall>n. q \<noteq> backupFile n) \<longrightarrow> map_of fs' q = map_of fs q)
           \<and> (\<forall>q. (map_of fs' q = Some Dir) = (map_of fs q = Some Dir))"
proof -
  from listBackups_Some [OF dir, of "TrimSuffix baseFilename ''.json''"]
  obtain bs0 where "listBackups (TrimSuffix baseFilename ''.json'') fs = Inr bs0" by blast
  from cleanupOldBackups_keeps_first [OF k dir this, of lib] show ?thesis by blast
qed

lemma snapshotFile_ok:
  assumes f: "nodeAt fs filePath = Some (File cur)"
      and d: "nodeAt fs backupDir = Some Dir"
      and nd: "nodeAt fs (backupTarget now filePath) \<noteq> Some Dir"
  shows "\<exists>fs2. snapshotFile now filePath fs = (fs2, True)
           \<and> nodeAt fs2 backupDir = Some Dir
           \<and> nodeAt fs2 (backupTarget now filePath) = Some (File cur)
           \<and> (nodeAt fs (backupTarget now filePath @ ''.sha256'') \<noteq> Some Dir \<longrightarrow>
                nodeAt fs2 (backupTarget now filePath @ ''.sha256'')
                  = Some (File (hex (Sum256 cur) @ [newline])))
           \<and> (\<forall>q. (\<forall>n. q \<noteq> backupFile n) \<longrightarrow> map_of fs2 q = map_of fs q)
           \<and> (\<forall>q. (map_of fs2 q = Some Dir) = (map_of fs q = Some Dir))"
proof -
  from backupTarget_backupFile [of now filePath]
  obtain n where n: "validName n" "backupTarget now filePath = backupFile n" by blast
  note v2 = validName_sidecar [OF n(1)]
  have nd0: "map_of fs (backupFile n) \<noteq> Some Dir"
    using nd d by (simp add: n(2) nodeAt_backupFile [OF n(1)])
  from snapshotFile_written [OF f d n(2) n(1) nd0]
  obtain fs2 where fs2: "snapshotFile now filePath fs = (fs2, True)"
      "nodeAt fs2 backupDir = Some Dir"
      "map_of fs2 (backupFile n) = Some (File cur)"
      "map_of fs2 (backupFile (n @ ''.sha256'')) =
         (if map_of fs (backupFile (n @ ''.sha256'')) = Some Dir then Some Dir
          else Some (File (hex (Sum256 cur) @ [newline])))"
      "\<forall>q. q \<noteq> backupFile n \<and> q \<noteq> backupFile (n @ ''.sha256'')
           \<longrightarrow> map_of fs2 q = map_of fs q"
      "\<forall>q. (map_of fs2 q = Some Dir) = (map_of fs q = Some Dir)"
    by blast
  have "\<forall>q. (\<forall>n. q \<noteq> backupFile n) \<longrightarrow> map_of fs2 q = map_of fs q"
    using fs2(5) by metis
  moreover have "nodeAt fs2 (backupTarget now filePath) = Some (File cur)"
    using fs2(2,3) by (simp add: n(2) nodeAt_backupFile [OF n(1)])
  moreover have "nodeAt fs (backupTarget now filePath @ ''.sha256'') \<noteq> Some Dir \<longrightarrow>
        nodeAt fs2 (backupTarget now filePath @ ''.sha256'')
          = Some (File (hex (Sum256 cur) @ [newline]))"
    using fs2(2,4) d by (simp add: n(2) backupFile_append nodeAt_backupFile [OF v2])
  ultimately show ?thesis
    using fs2(1,2,6) by blast
qed

lemma backupAndRotate_Done:
  assumes f: "nodeAt fs filePath = Some (File cur)"
      and k: "0 \<le> maxBackups"
      and d: "nodeAt fs backupDir = Some Dir"
      and nd: "nodeAt fs (backupTarget now filePath) \<noteq> Some Dir"
  shows "\<exists>fs2 fs3. snapshotFile now filePath fs = (fs2, True)
           \<and> cleanupOldBackups lib (Base filePath) maxBackups fs2 = (Done, fs3)
           \<and> backupAndRotate lib now filePath maxBackups fs = (Done, fs3)
           \<and> nodeAt fs2 (backupTarget now filePath) = Some (File cur)
           \<and> (nodeAt fs (backupTarget now filePath @ ''.sha256'') \<noteq> Some Dir \<longrightarrow>
                nodeAt fs2 (backupTarget now filePath @ ''.sha256'')
                  = Some (File (hex (Sum256 cur) @ [newline])))
           \<and> (\<forall>q. (\<forall>n. q \<noteq> backupFile n) \<longrightarrow> map_of fs3 q = map_of fs q)
           \<and> (\<forall>q. (map_of fs3 q = Some Dir) = (map_of fs q = Some Dir))"
proof -
  from snapshotFile_ok [OF f d nd]
  obtain fs2 where fs2: "snapshotFile now filePath fs = (fs2, True)"
      "nodeAt fs2 backupDir = Some Dir"
      "nodeAt fs2 (backupTarget now filePath) = Some (File cur)"
      "nodeAt fs (backupTarget now filePath @ ''.sha256'') \<noteq> Some Dir \<longrightarrow>
         nodeAt fs2 (backupTarget now filePath @ ''.sha256'')
           = Some (File (hex (Sum256 cur) @ [newline]))"
      "\<forall>q. (\<forall>n. q \<noteq> backupFile n) \<longrightarrow> map_of fs2 q = map_of fs q"
      "\<forall>q. (map_of fs2 q = Some Dir) = (map_of fs q = Some Dir)"
    by blast
  from cleanupOldBackups_frame [OF k fs2(2), of lib "Base filePath"]
  obtain fs3 where fs3: "cleanupOldBackups lib (Base filePath) maxBackups fs2 = (Done, fs3)"
      "\<forall>q. (\<forall>n. q \<noteq> backupFile n) \<longrightarrow> map_of fs3 q = map_of fs2 q"
      "\<forall>q. (map_of fs3 q = Some Dir) = (map_of fs2 q = Some Dir)"
    by blast
  have "backupAndRotate lib now filePath maxBackups fs = (Done, fs3)"
    by (simp add: backupAndRotate_def fs2(1) fs3(1))
  moreover have "\<forall>q. (\<forall>n. q \<noteq> backupFile n) \<longrightarrow> map_of fs3 q = map_of fs q"
    using fs3(2) fs2(5) by metis
  moreover have "\<forall>q. (map_of fs3 q = Some Dir) = (map_of fs q = Some Dir)"
    using fs3(3) fs2(6) by metis
  ultimately show ?thesis
    using fs2(1,3,4) fs3(1) by blast
qed

text \<open>
  Whether the backup is written or not, the backup block of a write to an existing file
  with a limit that is not negative ends without a panic; it leaves every directory a
  directory and every other node what it was, and changes nothing outside the backup
  directory.
\<close>

lemma backupAndRotate_frame:
  assumes f: "nodeAt fs filePath = Some (File cur)"
      and k: "0 \<le> maxBackups"
  shows "\<exists>fs3. backupAndRotate lib now filePath maxBackups fs = (Done, fs3)
           \<and> (\<forall>q. (\<forall>n. q \<noteq> backupFile n) \<longrightarrow> map_of fs3 q = map_of fs q)
           \<and> (\<forall>q. (map_of fs3 q = Some Dir) = (map_of fs q = Some Dir))"
proof (cases "nodeAt fs backupDir = Some Dir \<and> nodeAt fs (backupTarget now filePath) \<noteq> Some Dir")
  case True
  then have d: "nodeAt fs backupDir = Some Dir"
    and nd: "nodeAt fs (backupTarget now filePath) \<noteq> Some Dir" by simp_all
  from backupAndRotate_Done [OF f k d nd, of lib] show ?thesis by blast
next
  case False
  then have "nodeAt fs backupDir \<noteq> Some Dir \<or> nodeAt fs (backupTarget now filePath) = Some Dir"
    by blast
  from snapshotFile_fails [OF f this]
  have "backupAndRotate lib now filePath maxBackups fs = (Done, fs)"
    by (simp add: backupAndRotate_def)
  then show ?thesis by simp
qed

lemma cleanupOldBackups_negative:
  assumes "maxBackups < 0" and "nodeAt fs backupDir = Some Dir"
  shows "cleanupOldBackups lib baseFilename maxBackups fs = (Panic, fs)"
proof -
  from listBackups_Some [OF assms(2), of "TrimSuffix baseFilename ''.json''"]
  obtain bs where "listBackups (TrimSuffix baseFilename ''.json'') fs = Inr bs" by blast
  with assms(1) show ?thesis by (simp add: cleanupOldBackups_def)
qed

lemma update_not_panic:
  assumes "updateJSONFileWithBackup lib now r filePath maxBackups fs = (resp, fs')"
      and "status resp = 200" and "os_Stat fs filePath = None"
  shows "fst (backupAndRotate lib now filePath maxBackups fs) \<noteq> Panic"
  using assms
  by (auto simp: updateJSONFileWithBackup_def aborted_def http_Error_def
        Let_def split: option.splits if_splits prod.splits outcome.splits)

text \<open>
  The write that follows the backup block succeeds, and the target then holds the new
  bytes.
\<close>

lemma write_after_backup:
  assumes f: "nodeAt fs filePath = Some (File cur)"
      and same: "\<forall>q. (map_of fs3 q = Some Dir) = (map_of fs q = Some Dir)"
  shows "\<exists>fs'. os_WriteFile fs3 filePath pretty = Some fs'
           \<and> nodeAt fs' filePath = Some (File pretty)"
proof -
  from f have r: "resolveDir fs (parentOf (Clean filePath)) = None"
      and m: "map_of fs (Clean filePath) \<noteq> Some Dir"
    by (auto simp: nodeAt_eq split: if_splits)
  from resolveDir_same [OF same] r have "resolveDir fs3 (parentOf (Clean filePath)) = None"
    by simp
  moreover from same m have "map_of fs3 (Clean filePath) \<noteq> Some Dir" by simp
  ultimately have w: "os_WriteFile fs3 filePath pretty
                        = Some (AList.update (Clean filePath) (File pretty) fs3)"
    by (simp add: os_WriteFile_eq)
  from os_WriteFile_nodeAt [OF w] w show ?thesis by blast
qed

text \<open>
  The write succeeds: when the body is accepted, the target is an existing file, the
  \<^verbatim>\<open>If-Match\<close> header is empty or equal to the fingerprint of the bytes on disk, and
  the limit is not negative, the answer is 200 with the fingerprint of the new bytes, and
  the target holds the new bytes, whether the backup could be written or not.
\<close>

lemma update_succeeds:
  assumes b: "req_body r = Some raw"
      and u: "json_Unmarshal lib raw = Some v"
      and va: "validateByPath filePath v = None"
      and m: "json_MarshalIndent lib v = Some pretty"
      and f: "nodeAt fs filePath = Some (File cur)"
      and im: "getOrEmpty (req_header r) ''If-Match'' = []
               \<or> getOrEmpty (req_header r) ''If-Match'' = computeETag (Some cur)"
      and k: "0 \<le> maxBackups"
  shows "\<exists>resp fs'. updateJSONFileWithBackup lib now r filePath maxBackups fs = (resp, fs')
           \<and> status resp = 200 \<and> etag resp = Some (computeETag (Some pretty))
           \<and> nodeAt fs' filePath = Some (File pretty)"
proof -
  from backupAndRotate_frame [OF f k, of lib now]
  obtain fs3 where fs3: "backupAndRotate lib now filePath maxBackups fs = (Done, fs3)"
      "\<forall>q. (map_of fs3 q = Some Dir) = (map_of fs q = Some Dir)"
    by blast
  from write_after_backup [OF f fs3(2), of pretty]
  obtain fs' where w: "os_WriteFile fs3 filePath pretty = Some fs'"
      "nodeAt fs' filePath = Some (File pretty)"
    by blast
  have "updateJSONFileWithBackup lib now r filePath maxBackups fs
          = writeDocument filePath pretty fs3"
    using im
    by (auto simp: updateJSONFileWithBackup_def b u va m os_Stat_nodeAt [OF f]
          os_ReadFile_file [OF f] fs3(1))
  then show ?thesis
    by (simp add: writeDocument_def w jsonOK_def)
qed

text \<open>
  When the backup cannot be written, the same request is answered with 200 all the same:
  the new bytes are written to the target in the state the request found.
\<close>

lemma update_without_backup:
  assumes b: "req_body r = Some raw"
      and u: "json_Unmarshal lib raw = Some v"
      and va: "validateByPath filePath v = None"
      and m: "json_MarshalIndent lib v = Some pretty"
      and f: "nodeAt fs filePath = Some (File cur)"
      and im: "getOrEmpty (req_header r) ''If-Match'' = []
               \<or> getOrEmpty (req_header r) ''If-Match'' = computeETag (Some cur)"
      and nb: "nodeAt fs backupDir \<noteq> Some Dir \<or> nodeAt fs (backupTarget now filePath) = Some Dir"
  shows "\<exists>resp fs'. updateJSONFileWithBackup lib now r filePath maxBackups fs = (resp, fs')
           \<and> status resp = 200
           \<and> snapshotFile now filePath fs = (fs, False)
           \<and> os_WriteFile fs filePath pretty = Some fs'
           \<and> nodeAt fs' filePath = Some (File pretty)"
proof -
  note sn = snapshotFile_fails [OF f nb]
  then have br: "backupAndRotate lib now filePath maxBackups fs = (Done, fs)"
    by (simp add: backupAndRotate_def)
  from write_after_backup [OF f, of fs pretty]
  obtain fs' where w: "os_WriteFile fs filePath pretty = Some fs'"
      "nodeAt fs' filePath = Some (File pretty)"
    by blast
  have "updateJSONFileWithBackup lib now r filePath maxBackups fs
          = writeDocument filePath pretty fs"
    using im
    by (auto simp: updateJSONFileWithBackup_def b u va m os_Stat_nodeAt [OF f]
          os_ReadFile_file [OF f] br)
  then show ?thesis
    using sn w by (simp add: writeDocument_def jsonOK_def)
qed

lemma sample_backupTarget:
  "backupTarget sampleTime ''data/releases.json'' = ''data/backups/releases.20250415-090500.json''"
  by code_simp

lemma sample_dirs:
  "nodeAt sampleFS backupDir = Some Dir"
  "nodeAt sampleFS ''data/backups/releases.20250415-090500.json'' \<noteq> Some Dir"
  "nodeAt sampleFS ''data/backups/releases.20250415-090500.json.sha256'' \<noteq> Some Dir"
  by code_simp+

lemma noBackupDirFS_simps:
  "nodeAt noBackupDirFS ''data/releases.json'' = Some (File ''{}'')"
  "nodeAt noBackupDirFS backupDir \<noteq> Some Dir"
  by code_simp+

lemma update_success_steps:
  assumes u: "updateJSONFileWithBackup lib now r filePath maxBackups fs = (resp, fs')"
      and ok: "status resp = 200"
      and f: "nodeAt fs filePath = Some (File orig)"
      and d: "nodeAt fs backupDir = Some Dir"
      and nd: "nodeAt fs (backupTarget now filePath) \<noteq> Some Dir"
  shows "\<exists>raw v pretty fs2 fs3.
           req_body r = Some raw \<and> json_Unmarshal lib raw = Some v
         \<and> json_MarshalIndent lib v = Some pretty
         \<and> snapshotFile now filePath fs = (fs2, True)
         \<and> nodeAt fs2 backupDir = Some Dir
         \<and> nodeAt fs2 (backupTarget now filePath) = Some (File orig)
         \<and> (nodeAt fs (backupTarget now filePath @ ''.sha256'') \<noteq> Some Dir \<longrightarrow>
              nodeAt fs2 (backupTarget now filePath @ ''.sha256'')
                = Some (File (hex (Sum256 orig) @ [newline])))
         \<and> 0 \<le> maxBackups
         \<and> cleanupOldBackups lib (Base filePath) maxBackups fs2 = (Done, fs3)
         \<and> os_WriteFile fs3 filePath pretty = Some fs'
         \<and> nodeAt fs' filePath = Some (File pretty)"
proof -
  have st: "os_Stat fs filePath = None" by (rule os_Stat_nodeAt [OF f])
  from snapshotFile_ok [OF f d nd]
  obtain fs2 where fs2: "snapshotFile now filePath fs = (fs2, True)"
      "nodeAt fs2 backupDir = Some Dir"
      "nodeAt fs2 (backupTarget now filePath) = Some (File orig)"
      "nodeAt fs (backupTarget now filePath @ ''.sha256'') \<noteq> Some Dir \<longrightarrow>
         nodeAt fs2 (backupTarget now filePath @ ''.sha256'')
           = Some (File (hex (Sum256 orig) @ [newline]))"
    by blast
  have k: "0 \<le> maxBackups"
  proof (rule ccontr)
    assume "\<not> 0 \<le> maxBackups"
    with cleanupOldBackups_negative [OF _ fs2(2), of maxBackups lib "Base filePath"]
    have "backupAndRotate lib now filePath maxBackups fs = (Panic, fs2)"
      by (simp add: backupAndRotate_def fs2(1))
    with update_not_panic [OF u ok st] show False by simp
  qed
  from cleanupOldBackups_frame [OF k fs2(2), of lib "Base filePath"]
  obtain fs3 where fs3: "cleanupOldBackups lib (Base filePath) maxBackups fs2 = (Done, fs3)"
    by blast
  then have "backupAndRotate lib now filePath maxBackups fs = (Done, fs3)"
    by (simp add: backupAndRotate_def fs2(1))
  with update_success_shape [OF u ok] st
  obtain raw v pretty where p: "req_body r = Some raw" "json_Unmarshal lib raw = Some v"
      "json_MarshalIndent lib v = Some pretty" "os_WriteFile fs3 filePath pretty = Some fs'"
    by auto
  from os_WriteFile_nodeAt [OF p(4)] have "nodeAt fs' filePath = Some (File pretty)" .
  with fs2 k fs3 p show ?thesis by blast
qed

text \<open>
  After a write that made a backup, the listing of the document's prefix is within the
  limit: the rotation bound holds in the state the handler leaves.
\<close>

lemma listBackups_cong:
  assumes "(nodeAt fs' backupDir = Some Dir) = (nodeAt fs backupDir = Some Dir)"
      and "\<forall>n. map_of fs' (backupFile n) = map_of fs (backupFile n)"
  shows "listBackups pre fs' = listBackups pre fs"
proof (cases "nodeAt fs backupDir = Some Dir")
  case True
  from listBackups_Some [OF True, of pre]
  obtain bs where bs: "listBackups pre fs = Inr bs" "sorted bs" "distinct bs"
      "set bs = backupNames pre fs" by blast
  from True assms(1) have "nodeAt fs' backupDir = Some Dir" by simp
  from listBackups_Some [OF this, of pre]
  obtain bs' where bs': "listBackups pre fs' = Inr bs'" "sorted bs'" "distinct bs'"
      "set bs' = backupNames pre fs'" by blast
  have "backupNames pre fs' = backupNames pre fs"
    using assms(2) by (simp add: backupNames_def)
  with bs bs' have "bs' = bs" by (intro sorted_distinct_set_unique) simp_all
  with bs(1) bs'(1) show ?thesis by simp
next
  case False
  with assms(1) show ?thesis
    by (simp add: listBackups_def os_ReadDir_backupDir)
qed

lemma listing_bound_after_write:
  assumes u: "updateJSONFileWithBackup lib now r filePath maxBackups fs = (resp, fs')"
      and ok: "status resp = 200"
      and f: "nodeAt fs filePath = Some (File orig)"
      and d: "nodeAt fs backupDir = Some Dir"
      and nd: "nodeAt fs (backupTarget now filePath) \<noteq> Some Dir"
      and out: "\<forall>n. Clean filePath \<noteq> backupFile n"
  shows "\<exists>bs. listBackups (TrimSuffix (Base filePath) ''.json'') fs' = Inr bs
           \<and> int (length bs) \<le> maxBackups"
proof -
  let ?pre = "TrimSuffix (Base filePath) ''.json''"
  from update_success_steps [OF u ok f d nd]
  obtain fs2 fs3 pretty where s: "nodeAt fs2 backupDir = Some Dir" "0 \<le> maxBackups"
      "cleanupOldBackups lib (Base filePath) maxBackups fs2 = (Done, fs3)"
      "os_WriteFile fs3 filePath pretty = Some fs'"
    by blast
  from listBackups_Some [OF s(1), of ?pre]
  obtain bs0 where "listBackups ?pre fs2 = Inr bs0" by blast
  from cleanupOldBackups_keeps_first [OF s(2) s(1) this, of lib] s(3)
  obtain bs where bs: "nodeAt fs3 backupDir = Some Dir" "listBackups ?pre fs3 = Inr bs"
      "int (length bs) \<le> maxBackups"
    by auto
  have m: "map_of fs' = (map_of fs3)(Clean filePath \<mapsto> File pretty)"
    by (rule os_WriteFile_map_of [OF s(4)])
  have "\<forall>q. (map_of fs' q = Some Dir) = (map_of fs3 q = Some Dir)"
    using os_WriteFile_dirs [OF s(4)] by blast
  from backupDir_same [OF bs(1) this]
  have "(nodeAt fs' backupDir = Some Dir) = (nodeAt fs3 backupDir = Some Dir)"
    using bs(1) by simp
  moreover have "\<forall>n. map_of fs' (backupFile n) = map_of fs3 (backupFile n)"
    using out by (metis m fun_upd_other)
  ultimately have "listBackups ?pre fs' = listBackups ?pre fs3"
    by (rule listBackups_cong)
  with bs show ?thesis by simp
qed

text \<open>
  C3, as the code has it. In a POST answered with 200 whose target is an existing file,
  when the backup directory exists and the name of the backup is not taken by a
  directory: the bytes on disk are copied to the backup, and the sidecar with the full
  hash in hexadecimal and a newline is written beside it unless its name is taken by a
  directory; the rotation then runs on that state, and the body as the library prints it
  again is written to the target, which then holds it. When the backup directory does not
  exist or the name of the backup is taken by a directory, a POST whose body is accepted
  and whose precondition is absent or met is answered with 200 all the same: no backup
  is written, and the printed body is written to the target in the state the request
  found. The backup is the entry of the backup directory named by the base name without
  \<^verbatim>\<open>.json\<close>, the timestamp and \<^verbatim>\<open>.json\<close>. When the target does not exist, nothing but
  the target changes, so no backup is created.
\<close>

theorem backup_written_before_update:
  assumes "updateJSONFileWithBackup lib now r filePath maxBackups fs = (resp, fs')"
  shows "(status resp = 200 \<and> nodeAt fs filePath = Some (File orig)
          \<and> nodeAt fs backupDir = Some Dir
          \<and> nodeAt fs (backupTarget now filePath) \<noteq> Some Dir \<longrightarrow>
            (\<exists>raw v pretty fs2 fs3.
               req_body r = Some raw \<and> json_Unmarshal lib raw = Some v
             \<and> json_MarshalIndent lib v = Some pretty
             \<and> snapshotFile now filePath fs = (fs2, True)
             \<and> nodeAt fs2 (backupTarget now filePath) = Some (File orig)
             \<and> (nodeAt fs (backupTarget now filePath @ ''.sha256'') \<noteq> Some Dir \<longrightarrow>
                  nodeAt fs2 (backupTarget now filePath @ ''.sha256'')
                    = Some (File (hex (Sum256 orig) @ [newline])))
             \<and> cleanupOldBackups lib (Base filePath) maxBackups fs2 = (Done, fs3)
             \<and> os_WriteFile fs3 filePath pretty = Some fs'
             \<and> nodeAt fs' filePath = Some (File pretty)))
       \<and> (req_body r = Some raw' \<and> json_Unmarshal lib raw' = Some v'
          \<and> validateByPath filePath v' = None \<and> json_MarshalIndent lib v' = Some pretty'
          \<and> nodeAt fs filePath = Some (File orig)
          \<and> (getOrEmpty (req_header r) ''If-Match'' = []
               \<or> getOrEmpty (req_header r) ''If-Match'' = computeETag (Some orig))
          \<and> (nodeAt fs backupDir \<noteq> Some Dir
               \<or> nodeAt fs (backupTarget now filePath) = Some Dir) \<longrightarrow>
            status resp = 200
          \<and> snapshotFile now filePath fs = (fs, False)
          \<and> os_WriteFile fs filePath pretty' = Some fs'
          \<and> nodeAt fs' filePath = Some (File pretty'))
       \<and> (Base filePath \<noteq> ''/'' \<longrightarrow>
            backupTarget now filePath
              = backupFile (TrimSuffix (Base filePath) ''.json'' @ ''.'' @ Format now @ ''.json''))
       \<and> (nodeAt fs filePath = None \<longrightarrow>
            (\<forall>q. q \<noteq> Clean filePath \<longrightarrow> map_of fs' q = map_of fs q))"
proof (intro conjI impI)
  assume h: "status resp = 200 \<and> nodeAt fs filePath = Some (File orig)
          \<and> nodeAt fs backupDir = Some Dir
          \<and> nodeAt fs (backupTarget now filePath) \<noteq> Some Dir"
  with update_success_steps [OF assms, of orig]
  show "\<exists>raw v pretty fs2 fs3.
               req_body r = Some raw \<and> json_Unmarshal lib raw = Some v
             \<and> json_MarshalIndent lib v = Some pretty
             \<and> snapshotFile now filePath fs = (fs2, True)
             \<and> nodeAt fs2 (backupTarget now filePath) = Some (File orig)
             \<and> (nodeAt fs (backupTarget now filePath @ ''.sha256'') \<noteq> Some Dir \<longrightarrow>
                  nodeAt fs2 (backupTarget now filePath @ ''.sha256'')
                    = Some (File (hex (Sum256 orig) @ [newline])))
             \<and> cleanupOldBackups lib (Base filePath) maxBackups fs2 = (Done, fs3)
             \<and> os_WriteFile fs3 filePath pretty = Some fs'
             \<and> nodeAt fs' filePath = Some (File pretty)"
    by blast
next
  assume h: "req_body r = Some raw' \<and> json_Unmarshal lib raw' = Some v'
          \<and> validateByPath filePath v' = None \<and> json_MarshalIndent lib v' = Some pretty'
          \<and> nodeAt fs filePath = Some (File orig)
          \<and> (getOrEmpty (req_header r) ''If-Match'' = []
               \<or> getOrEmpty (req_header r) ''If-Match'' = computeETag (Some orig))
          \<and> (nodeAt fs backupDir \<noteq> Some Dir
               \<or> nodeAt fs (backupTarget now filePath) = Some Dir)"
  then have b: "req_body r = Some raw'" and u: "json_Unmarshal lib raw' = Some v'"
    and va: "validateByPath filePath v' = None" and m: "json_MarshalIndent lib v' = Some pretty'"
    and f: "nodeAt fs filePath = Some (File orig)"
    and im: "getOrEmpty (req_header r) ''If-Match'' = []
               \<or> getOrEmpty (req_header r) ''If-Match'' = computeETag (Some orig)"
    and nb: "nodeAt fs backupDir \<noteq> Some Dir \<or> nodeAt fs (backupTarget now filePath) = Some Dir"
    by blast+
  from update_without_backup [OF b u va m f im nb, of maxBackups] assms
  have r: "status resp = 200 \<and> snapshotFile now filePath fs = (fs, False)
        \<and> os_WriteFile fs filePath pretty' = Some fs'
        \<and> nodeAt fs' filePath = Some (File pretty')"
    by auto
  from r show "status resp = 200" by blast
  from r show "snapshotFile now filePath fs = (fs, False)" by blast
  from r show "os_WriteFile fs filePath pretty' = Some fs'" by blast
  from r show "nodeAt fs' filePath = Some (File pretty')" by blast
next
  assume "Base filePath \<noteq> ''/''"
  with backupTarget_backupFile [of now filePath]
  show "backupTarget now filePath
          = backupFile (TrimSuffix (Base filePath) ''.json'' @ ''.'' @ Format now @ ''.json'')"
    by auto
next
  assume "nodeAt fs filePath = None"
  from update_absent_frame [OF assms this]
  show "\<forall>q. q \<noteq> Clean filePath \<longrightarrow> map_of fs' q = map_of fs q" .
qed

theorem backup_written_before_update_witness:
  \<open>(\<exists>raw v pretty fs2 fs3.
       req_body (postRequest ''{"staging": []}'' None) = Some raw
     \<and> json_Unmarshal sampleLib raw = Some v
     \<and> json_MarshalIndent sampleLib v = Some pretty
     \<and> snapshotFile sampleTime ''data/releases.json'' sampleFS = (fs2, True)
     \<and> nodeAt fs2 ''data/backups/releases.20250415-090500.json'' = Some (File ''{}'')
     \<and> nodeAt fs2 (''data/backups/releases.20250415-090500.json'' @ ''.sha256'')
         = Some (File (hex (Sum256 ''{}'') @ [newline]))
     \<and> cleanupOldBackups sampleLib ''releases.json'' 10 fs2 = (Done, fs3)
     \<and> os_WriteFile fs3 ''data/releases.json'' pretty
         = Some (snd (handleDaysOff sampleLib sampleTime
                        (postRequest ''{"staging": []}'' None) sampleFS))
     \<and> nodeAt (snd (handleDaysOff sampleLib sampleTime
                        (postRequest ''{"staging": []}'' None) sampleFS))
           ''data/releases.json'' = Some (File pretty))
   \<and> status (fst (handleDaysOff sampleLib sampleTime
                     (postRequest ''{"staging": []}'' None) noBackupDirFS)) = 200
   \<and> nodeAt (snd (handleDaysOff sampleLib sampleTime
                     (postRequest ''{"staging": []}'' None) noBackupDirFS))
         ''data/releases.json''
       = Some (File (''{'' @ [newline] @ ''  "staging": []'' @ [newline] @ ''}''))
   \<and> map_of (snd (handleDaysOff sampleLib sampleTime
                      (postRequest ''{"staging": []}'' None) emptyFS))
         ''data/backups/releases.20250415-090500.json'' = None\<close>
proof -
  let ?r = \<open>postRequest ''{"staging": []}'' None\<close>
  let ?X = "updateJSONFileWithBackup sampleLib sampleTime ?r ''data/releases.json'' 10 sampleFS"
  let ?Y = "updateJSONFileWithBackup sampleLib sampleTime ?r ''data/releases.json'' 10 emptyFS"
  let ?Z = "updateJSONFileWithBackup sampleLib sampleTime ?r ''data/releases.json'' 10
              noBackupDirFS"
  from update_succeeds [of ?r _ sampleLib _ "''data/releases.json''" _ sampleFS "''{}''" 10
      sampleTime, OF _ sampleLib_staging(1) validate_releases_staging sampleLib_staging(2)
      sampleFS_releases]
  have ok: "status (fst ?X) = 200"
    by (auto simp: postRequest_simps)
  have a: "status (fst ?X) = 200 \<and> nodeAt sampleFS ''data/releases.json'' = Some (File ''{}'')
          \<and> nodeAt sampleFS backupDir = Some Dir
          \<and> nodeAt sampleFS (backupTarget sampleTime ''data/releases.json'') \<noteq> Some Dir"
    using ok by (simp add: sampleFS_releases sample_dirs sample_backupTarget)
  have X: "?X = (fst ?X, snd ?X)" and Y: "?Y = (fst ?Y, snd ?Y)"
    and Z: "?Z = (fst ?Z, snd ?Z)" by simp_all
  note part1 = backup_written_before_update [OF X, of "''{}''", THEN conjunct1]
  note part2 = backup_written_before_update [OF Z, of "''{}''" \<open>''{"staging": []}''\<close>
      \<open>JObject [(''staging'', JArray [])]\<close>
      \<open>''{'' @ [newline] @ ''  "staging": []'' @ [newline] @ ''}''\<close>,
      THEN conjunct2, THEN conjunct1]
  note part4 = backup_written_before_update [OF Y, of "''{}''",
      THEN conjunct2, THEN conjunct2, THEN conjunct2]
  have e: "map_of emptyFS ''data/backups/releases.20250415-090500.json'' = None"
    by code_simp
  from part2 have z: \<open>status (fst ?Z) = 200
      \<and> nodeAt (snd ?Z) ''data/releases.json''
          = Some (File (''{'' @ [newline] @ ''  "staging": []'' @ [newline] @ ''}''))\<close>
    by (simp add: postRequest_simps sampleLib_staging validate_releases_staging
          noBackupDirFS_simps)
  from part1 a part4 e z show ?thesis
    by (simp add: handleDaysOff_post sample_backupTarget sample_dirs Base_releases
          Clean_releases emptyFS_releases)
qed

text \<open>
  C3 as stated fails: when the backup directory is missing, the backup cannot be
  written, which is logged only; the POST is answered with 200 and no backup exists.
\<close>

theorem backup_not_written_counterexample:
  \<open>nodeAt noBackupDirFS (Join dataDir ''releases.json'') = Some (File ''{}'')
   \<and> status (fst (handleDaysOff sampleLib sampleTime
         (postRequest ''{"staging": []}'' None) noBackupDirFS)) = 200
   \<and> snd (handleDaysOff sampleLib sampleTime (postRequest ''{"staging": []}'' None) noBackupDirFS)
       = [(''data'', Dir),
          (''data/releases.json'',
             File (''{'' @ [newline] @ ''  "staging": []'' @ [newline] @ ''}''))]\<close>
proof -
  have t: "os_WriteFile noBackupDirFS ''data/backups/releases.20250415-090500.json'' ''{}'' = None"
    by code_simp
  have r: "os_ReadFile noBackupDirFS ''data/releases.json'' = (Some ''{}'', True)"
    by code_simp
  have s: "os_Stat noBackupDirFS ''data/releases.json'' = None"
    by code_simp
  have w: \<open>os_WriteFile noBackupDirFS ''data/releases.json''
             (''{'' @ [newline] @ ''  "staging": []'' @ [newline] @ ''}'')
           = Some [(''data'', Dir),
                   (''data/releases.json'',
                      File (''{'' @ [newline] @ ''  "staging": []'' @ [newline] @ ''}''))]\<close>
    by code_simp
  have n: "nodeAt noBackupDirFS ''data/releases.json'' = Some (File ''{}'')"
    by code_simp
  show ?thesis
    using n w
    by (simp add: handleDaysOff_post Join_dataDir_releases updateJSONFileWithBackup_def
          postRequest_simps sampleLib_staging validate_releases_staging s backupAndRotate_def
          snapshotFile_def r sample_backupTarget t writeDocument_def jsonOK_def)
qed

subsection \<open>The empty precondition\<close>

text \<open>
  C10. A request whose \<^verbatim>\<open>If-Match\<close> header is present and empty gets the answer, and
  leaves the file system, of the same request without the header; the answer is never
  412, whatever the target holds. And the write proceeds: when the body is accepted, the
  target is an existing file and the limit is not negative (the handlers pass a positive
  one), the answer is 200 with the fingerprint of the new bytes, and the target holds the
  new bytes, whatever it held before.
\<close>

theorem empty_if_match_is_absent:
  "updateJSONFileWithBackup lib now (r\<lparr>req_header := (req_header r)(''If-Match'' \<mapsto> [])\<rparr>)
       filePath maxBackups fs
     = updateJSONFileWithBackup lib now (r\<lparr>req_header := (req_header r)(''If-Match'' := None)\<rparr>)
         filePath maxBackups fs
   \<and> status (fst (updateJSONFileWithBackup lib now
         (r\<lparr>req_header := (req_header r)(''If-Match'' \<mapsto> [])\<rparr>) filePath maxBackups fs)) \<noteq> 412
   \<and> (req_body r = Some raw \<and> json_Unmarshal lib raw = Some v
      \<and> validateByPath filePath v = None \<and> json_MarshalIndent lib v = Some pretty
      \<and> nodeAt fs filePath = Some (File cur) \<and> 0 \<le> maxBackups \<longrightarrow>
        status (fst (updateJSONFileWithBackup lib now
          (r\<lparr>req_header := (req_header r)(''If-Match'' \<mapsto> [])\<rparr>) filePath maxBackups fs)) = 200
      \<and> etag (fst (updateJSONFileWithBackup lib now
          (r\<lparr>req_header := (req_header r)(''If-Match'' \<mapsto> [])\<rparr>) filePath maxBackups fs))
          = Some (computeETag (Some pretty))
      \<and> nodeAt (snd (updateJSONFileWithBackup lib now
          (r\<lparr>req_header := (req_header r)(''If-Match'' \<mapsto> [])\<rparr>) filePath maxBackups fs))
          filePath = Some (File pretty))"
proof (intro conjI impI)
  let ?r = "r\<lparr>req_header := (req_header r)(''If-Match'' \<mapsto> [])\<rparr>"
  show "updateJSONFileWithBackup lib now ?r filePath maxBackups fs
     = updateJSONFileWithBackup lib now (r\<lparr>req_header := (req_header r)(''If-Match'' := None)\<rparr>)
         filePath maxBackups fs"
    by (auto simp: updateJSONFileWithBackup_def getOrEmpty_def Let_def split: option.splits)
  show "status (fst (updateJSONFileWithBackup lib now ?r filePath maxBackups fs)) \<noteq> 412"
    apply (simp add: updateJSONFileWithBackup_def getOrEmpty_def http_Error_def
             split: option.splits prod.splits outcome.splits)
    apply (auto simp: writeDocument_def aborted_def jsonOK_def http_Error_def split: option.splits)
    done
  assume h: "req_body r = Some raw \<and> json_Unmarshal lib raw = Some v
      \<and> validateByPath filePath v = None \<and> json_MarshalIndent lib v = Some pretty
      \<and> nodeAt fs filePath = Some (File cur) \<and> 0 \<le> maxBackups"
  then have b: "req_body ?r = Some raw" and u: "json_Unmarshal lib raw = Some v"
    and va: "validateByPath filePath v = None" and m: "json_MarshalIndent lib v = Some pretty"
    and f: "nodeAt fs filePath = Some (File cur)" and k: "0 \<le> maxBackups"
    by simp_all
  have im: "getOrEmpty (req_header ?r) ''If-Match'' = []
              \<or> getOrEmpty (req_header ?r) ''If-Match'' = computeETag (Some cur)"
    by (simp add: getOrEmpty_def)
  from update_succeeds [OF b u va m f im k, of now]
  have r: "status (fst (updateJSONFileWithBackup lib now ?r filePath maxBackups fs)) = 200
      \<and> etag (fst (updateJSONFileWithBackup lib now ?r filePath maxBackups fs))
          = Some (computeETag (Some pretty))
      \<and> nodeAt (snd (updateJSONFileWithBackup lib now ?r filePath maxBackups fs))
          filePath = Some (File pretty)"
    by auto
  from r show "status (fst (updateJSONFileWithBackup lib now ?r filePath maxBackups fs)) = 200"
    by blast
  from r show "etag (fst (updateJSONFileWithBackup lib now ?r filePath maxBackups fs))
          = Some (computeETag (Some pretty))"
    by blast
  from r show "nodeAt (snd (updateJSONFileWithBackup lib now ?r filePath maxBackups fs))
          filePath = Some (File pretty)"
    by blast
qed

theorem empty_if_match_is_absent_witness:
  \<open>updateJSONFileWithBackup sampleLib sampleTime
       ((postRequest ''{"staging": []}'' None)\<lparr>req_header :=
           (req_header (postRequest ''{"staging": []}'' None))(''If-Match'' \<mapsto> [])\<rparr>)
       ''data/releases.json'' 10 sampleFS
     = updateJSONFileWithBackup sampleLib sampleTime
         ((postRequest ''{"staging": []}'' None)\<lparr>req_header :=
             (req_header (postRequest ''{"staging": []}'' None))(''If-Match'' := None)\<rparr>)
         ''data/releases.json'' 10 sampleFS
   \<and> status (fst (updateJSONFileWithBackup sampleLib sampleTime
       ((postRequest ''{"staging": []}'' None)\<lparr>req_header :=
           (req_header (postRequest ''{"staging": []}'' None))(''If-Match'' \<mapsto> [])\<rparr>)
       ''data/releases.json'' 10 sampleFS)) = 200
   \<and> nodeAt (snd (updateJSONFileWithBackup sampleLib sampleTime
       ((postRequest ''{"staging": []}'' None)\<lparr>req_header :=
           (req_header (postRequest ''{"staging": []}'' None))(''If-Match'' \<mapsto> [])\<rparr>)
       ''data/releases.json'' 10 sampleFS)) ''data/releases.json''
       = Some (File (''{'' @ [newline] @ ''  "staging": []'' @ [newline] @ ''}''))\<close>
proof -
  note t = empty_if_match_is_absent [of sampleLib sampleTime
      \<open>postRequest ''{"staging": []}'' None\<close> "''data/releases.json''" 10 sampleFS
      \<open>''{"staging": []}''\<close> \<open>JObject [(''staging'', JArray [])]\<close>
      \<open>''{'' @ [newline] @ ''  "staging": []'' @ [newline] @ ''}''\<close> "''{}''"]
  from t [THEN conjunct1] t [THEN conjunct2, THEN conjunct2]
  show ?thesis
    by (simp add: postRequest_simps sampleLib_staging validate_releases_staging
          sampleFS_releases)
qed

subsection \<open>Deleting a backup\<close>

text \<open>
  A DELETE changes at most one node: either nothing changes, or the answer is 200 and the
  node at the joined path is gone. When the base of the requested name is an entry name,
  that node is the entry of that name in the backup directory, so no other entry, and in
  particular no sidecar, is touched. The base is an entry name unless it is
  \<^verbatim>\<open>/\<close>, \<^verbatim>\<open>.\<close> or \<^verbatim>\<open>..\<close>.
\<close>

lemma Base_cases:
  "Base p = ''/'' \<or> Base p = ''.'' \<or> Base p = ''..'' \<or> validName (Base p)"
  using Base_no_slash [of p] by (auto simp: validName_def)

lemma handleBackups_delete_frame:
  assumes "req_method r = ''DELETE''"
      and "handleBackups lib r fs = (resp, fs')"
  shows "fs' = fs
         \<or> (\<exists>requested. status resp = 200
               \<and> map_of fs' = (map_of fs)(Clean (Join backupDir (Base requested)) := None)
               \<and> (validName (Base requested) \<longrightarrow>
                    Clean (Join backupDir (Base requested)) = backupFile (Base requested)))"
  using assms
  by (auto simp: handleBackups_def jsonOK_def Join_backupDir Clean_backupFile
        dest!: os_Remove_map_of split: option.splits if_splits)

text \<open>
  C9 fails on the code: \<^verbatim>\<open>filepath.Base\<close> returns \<^verbatim>\<open>.\<close> unchanged, the joined
  path is the backup directory itself, and \<^verbatim>\<open>os.Remove\<close> removes it when it is
  empty.
\<close>

theorem delete_dot_removes_backup_directory:
  \<open>nodeAt emptyFS backupDir = Some Dir
   \<and> handleBackups sampleLib (deleteRequest ''{"filename": "."}'') emptyFS
       = (jsonOK None ''{"success": true, "message": "Backup deleted successfully"}'',
          [(''data'', Dir)])
   \<and> nodeAt [(''data'', Dir)] backupDir = None\<close>
  by code_simp

end
